theory Spec2Isabelle
  imports Complex_Main "HOL-Library.Log_Nat"
begin

section \<open>Numbers of the program\<close>

text \<open>
  \<^verbatim>\<open>time.Duration\<close> is an \<^verbatim>\<open>int64\<close> count of nanoseconds and \<^verbatim>\<open>Attempts\<close> is an
  \<^verbatim>\<open>int\<close>. The program compares and stores these numbers; the only arithmetic on
  them is \<^verbatim>\<open>r.Attempts--\<close> (taken when \<^verbatim>\<open>Attempts > 1\<close>) and \<^verbatim>\<open>r.Attempts - 1\<close> (taken
  when \<^verbatim>\<open>Attempts >= 0\<close>), which cannot wrap. They are modelled as \<^typ>\<open>int\<close>.

  \<^verbatim>\<open>Rate\<close> and \<^verbatim>\<open>Jitter\<close> are \<^verbatim>\<open>float64\<close>. A finite \<^verbatim>\<open>float64\<close> is modelled by the
  rational number it denotes (the sign of a zero is dropped: no operation of the
  program observes it), and every operation rounds its exact result to the nearest
  value with a 53-bit significand, ties to even, as IEEE 754 binary64 does.
\<close>

datatype float64 = Finite rat | PInf | NInf | NaN

text \<open>\<open>expo x\<close> is the binary exponent of \<open>x \<noteq> 0\<close>: \<open>2 powi expo x \<le> \<bar>x\<bar> < 2 powi (expo x + 1)\<close>.\<close>

definition expo :: "rat \<Rightarrow> int" where
  "expo x = (case quotient_of \<bar>x\<bar> of (a, b) \<Rightarrow>
     let k = bitlen a - bitlen b in if 2 powi k \<le> \<bar>x\<bar> then k else k - 1)"

text \<open>Rounding to the nearest integer, ties to the even one.\<close>

definition rne :: "rat \<Rightarrow> int" where
  "rne q = (let f = \<lfloor>q\<rfloor>; r = q - of_int f in
     if r < 1 / 2 then f else if 1 / 2 < r then f + 1 else if even f then f else f + 1)"

text \<open>
  Rounding of an exact result to binary64: 53 significant bits, the exponent of the last
  bit not below \<open>-1074\<close> (subnormal numbers), overflow to an infinity from \<open>2 ^ 1024\<close> on.
\<close>

definition round_f64 :: "rat \<Rightarrow> float64" where
  "round_f64 x = (if x = 0 then Finite 0 else
     let e = max (expo x - 52) (- 1074);
         y = of_int (rne (x / 2 powi e)) * 2 powi e
     in if 2 powi 1024 \<le> \<bar>y\<bar> then (if 0 < x then PInf else NInf) else Finite y)"

text \<open>A rational number is a \<^verbatim>\<open>float64\<close> value when rounding leaves it as it is.\<close>

definition is_float64 :: "rat \<Rightarrow> bool" where
  "is_float64 x = (round_f64 x = Finite x)"

text \<open>
  The rounding where neither subnormal numbers nor overflow come into play; \<open>round_f64\<close>
  is \<open>Finite (nearest x)\<close> for \<open>1 \<le> \<bar>x\<bar>\<close> below \<open>2 ^ 1024\<close> (lemma \<open>round_f64_nearest\<close>).
\<close>

definition nearest :: "rat \<Rightarrow> rat" where
  "nearest x = of_int (rne (x / 2 powi (expo x - 52))) * 2 powi (expo x - 52)"

fun fmul :: "float64 \<Rightarrow> float64 \<Rightarrow> float64" where
  "fmul (Finite x) (Finite y) = round_f64 (x * y)"
| "fmul NaN b = NaN"
| "fmul a NaN = NaN"
| "fmul (Finite x) b = (if x = 0 then NaN else if (0 < x) = (b = PInf) then PInf else NInf)"
| "fmul a (Finite y) = (if y = 0 then NaN else if (0 < y) = (a = PInf) then PInf else NInf)"
| "fmul a b = (if a = b then PInf else NInf)"

fun fadd :: "float64 \<Rightarrow> float64 \<Rightarrow> float64" where
  "fadd (Finite x) (Finite y) = round_f64 (x + y)"
| "fadd NaN b = NaN"
| "fadd a NaN = NaN"
| "fadd (Finite x) b = b"
| "fadd a (Finite y) = a"
| "fadd a b = (if a = b then a else NaN)"

text \<open>The conversion \<^verbatim>\<open>float64(d)\<close> of an \<^verbatim>\<open>int64\<close>.\<close>

definition float64_of_int :: "int \<Rightarrow> float64" where
  "float64_of_int d = round_f64 (of_int d)"

text \<open>
  The conversion \<^verbatim>\<open>time.Duration(x)\<close> of a \<^verbatim>\<open>float64\<close> discards the fraction
  (truncation towards zero). Where the truncated value is no \<^verbatim>\<open>int64\<close>, or \<open>x\<close> is an
  infinity or a NaN, the Go specification leaves the result to the implementation:
  the parameter \<open>impl\<close> gives that result.
\<close>

definition trunc :: "rat \<Rightarrow> int" where
  "trunc x = (if 0 \<le> x then \<lfloor>x\<rfloor> else \<lceil>x\<rceil>)"

fun fits_int64 :: "float64 \<Rightarrow> bool" where
  "fits_int64 (Finite x) = (- (2 ^ 63) \<le> trunc x \<and> trunc x < 2 ^ 63)"
| "fits_int64 _ = False"

definition Duration_of_float64 :: "(float64 \<Rightarrow> int) \<Rightarrow> float64 \<Rightarrow> int" where
  "Duration_of_float64 impl x =
     (case x of Finite q \<Rightarrow> if fits_int64 x then trunc q else impl x | _ \<Rightarrow> impl x)"

text \<open>\<^verbatim>\<open>math.Phi\<close> as a \<^verbatim>\<open>float64\<close>: \<^verbatim>\<open>0x1.9e3779b97f4a8p+0\<close>.\<close>

definition Phi :: float64 where
  "Phi = Finite (910872158600853 / 562949953421312)"

section \<open>The retrier\<close>

record Retrier =
  Attempts :: int
  Delay :: int
  Floor :: int
  Ceil :: int
  Rate :: float64
  Jitter :: float64

text \<open>\<^verbatim>\<open>New\<close> of \<^verbatim>\<open>retrier.go\<close>: unlimited attempts are \<^verbatim>\<open>Attempts == 0\<close>.\<close>

definition New :: "int \<Rightarrow> int \<Rightarrow> Retrier" where
  "New lo hi =
     \<lparr>Attempts = 0, Delay = 0, Floor = lo, Ceil = hi, Rate = Phi, Jitter = Finite 0\<rparr>"

text \<open>
  The second version of the file (\<^verbatim>\<open>part_001\<close>): options, and unlimited attempts are a
  negative \<^verbatim>\<open>Attempts\<close>.
\<close>

type_synonym Option = "Retrier \<Rightarrow> Retrier"

definition Attempts_opt :: "int \<Rightarrow> Option" where
  "Attempts_opt n = (\<lambda>r. r\<lparr>Attempts := n\<rparr>)"

definition Rate_opt :: "float64 \<Rightarrow> Option" where
  "Rate_opt x = (\<lambda>r. r\<lparr>Rate := x\<rparr>)"

definition Jitter_opt :: "float64 \<Rightarrow> Option" where
  "Jitter_opt j = (\<lambda>r. r\<lparr>Jitter := j\<rparr>)"

definition New_opts :: "int \<Rightarrow> int \<Rightarrow> Option list \<Rightarrow> Retrier" where
  "New_opts lo hi opts =
     foldl (\<lambda>r setOpt. setOpt r)
       \<lparr>Attempts = - 1, Delay = 0, Floor = lo, Ceil = hi, Rate = Phi, Jitter = Finite 0\<rparr>
       opts"

text \<open>
  What one call of \<^verbatim>\<open>Wait\<close> observes of its surroundings: whether \<^verbatim>\<open>ctx.Done()\<close> is
  ready at the first \<^verbatim>\<open>select\<close>, the number \<^verbatim>\<open>rand.NormFloat64()\<close> returns should it be
  called, and which case the second \<^verbatim>\<open>select\<close> takes (the timer, or \<^verbatim>\<open>ctx.Done()\<close>).
\<close>

record env =
  ctx_done :: bool
  NormFloat64 :: float64
  timer_first :: bool

text \<open>A context that is never cancelled: no \<^verbatim>\<open>select\<close> can take \<^verbatim>\<open>ctx.Done()\<close>.\<close>

definition never_cancelled :: "env \<Rightarrow> bool" where
  "never_cancelled e = (\<not> ctx_done e \<and> timer_first e)"

text \<open>
  What a call does: the boolean it returns, the duration it handed to \<^verbatim>\<open>time.After\<close>
  (\<open>None\<close> when it returned before the second \<^verbatim>\<open>select\<close>), and the retrier it leaves.
\<close>

record outcome =
  ok :: bool
  timer :: "int option"
  after :: Retrier

text \<open>
  \<^verbatim>\<open>applyJitter\<close>, with the number \<open>z\<close> that \<^verbatim>\<open>rand.NormFloat64()\<close> returns. Each operation
  rounds, as on amd64; an implementation that fuses the last product with the sum rounds
  once less. No statement below depends on the difference: those about a jittered delay
  hold for any value of it, or are about values where every operation is exact.
\<close>

definition applyJitter :: "(float64 \<Rightarrow> int) \<Rightarrow> float64 \<Rightarrow> int \<Rightarrow> float64 \<Rightarrow> int" where
  "applyJitter impl z d jitter =
     (if jitter = Finite 0 then d
      else Duration_of_float64 impl
             (fadd (fmul z (fmul jitter (float64_of_int d))) (float64_of_int d)))"

text \<open>
  Growth, jitter and the clamp to \<^verbatim>\<open>Ceil\<close>: lines 70 to 78 of \<^verbatim>\<open>retrier.go\<close>, the same
  text as lines 96 to 104 of \<^verbatim>\<open>part_001\<close>.
\<close>

definition advance :: "(float64 \<Rightarrow> int) \<Rightarrow> env \<Rightarrow> Retrier \<Rightarrow> Retrier" where
  "advance impl e r =
     (let r1 = (if Delay r < Ceil r
                then r\<lparr>Delay := Duration_of_float64 impl (fmul (float64_of_int (Delay r)) (Rate r))\<rparr>
                else r);
          r2 = r1\<lparr>Delay := applyJitter impl (NormFloat64 e) (Delay r1) (Jitter r1)\<rparr>
      in if Ceil r2 < Delay r2 then r2\<lparr>Delay := Ceil r2\<rparr> else r2)"

text \<open>
  The second \<^verbatim>\<open>select\<close>: lines 87 to 95 of \<^verbatim>\<open>retrier.go\<close>, the same text as lines 114 to
  122 of \<^verbatim>\<open>part_001\<close>.
\<close>

definition sleep :: "env \<Rightarrow> Retrier \<Rightarrow> outcome" where
  "sleep e r =
     (if timer_first e
      then \<lparr>ok = True, timer = Some (Delay r),
            after = (if Delay r < Floor r then r\<lparr>Delay := Floor r\<rparr> else r)\<rparr>
      else \<lparr>ok = False, timer = Some (Delay r), after = r\<rparr>)"

text \<open>\<^verbatim>\<open>Wait\<close> of \<^verbatim>\<open>retrier.go\<close>.\<close>

definition Wait :: "(float64 \<Rightarrow> int) \<Rightarrow> env \<Rightarrow> Retrier \<Rightarrow> outcome" where
  "Wait impl e r =
     (if ctx_done e then \<lparr>ok = False, timer = None, after = r\<rparr>
      else let r' = advance impl e r in
        if 0 < Attempts r' then
          (if Attempts r' = 1 then \<lparr>ok = False, timer = None, after = r'\<rparr>
           else sleep e (r'\<lparr>Attempts := Attempts r' - 1\<rparr>))
        else sleep e r')"

text \<open>\<^verbatim>\<open>Wait\<close> of \<^verbatim>\<open>part_001\<close>.\<close>

definition Wait_opts :: "(float64 \<Rightarrow> int) \<Rightarrow> env \<Rightarrow> Retrier \<Rightarrow> outcome" where
  "Wait_opts impl e r =
     (if ctx_done e then \<lparr>ok = False, timer = None, after = r\<rparr>
      else let r' = advance impl e r in
        if 0 \<le> Attempts r' then
          (let a = Attempts r' - 1 in
           if a < 0 then \<lparr>ok = False, timer = None, after = r'\<rparr>
           else sleep e (r'\<lparr>Attempts := a\<rparr>))
        else sleep e r')"

text \<open>\<^verbatim>\<open>Reset\<close>, the same in both versions.\<close>

definition Reset :: "Retrier \<Rightarrow> Retrier" where
  "Reset r = r\<lparr>Delay := 0\<rparr>"

text \<open>Successive calls of \<^verbatim>\<open>Wait\<close> on one retrier, each with what it observes.\<close>

fun Waits :: "(float64 \<Rightarrow> int) \<Rightarrow> env list \<Rightarrow> Retrier \<Rightarrow> outcome list" where
  "Waits impl [] r = []"
| "Waits impl (e # es) r = (let out = Wait impl e r in out # Waits impl es (after out))"

fun Waits_opts :: "(float64 \<Rightarrow> int) \<Rightarrow> env list \<Rightarrow> Retrier \<Rightarrow> outcome list" where
  "Waits_opts impl [] r = []"
| "Waits_opts impl (e # es) r =
     (let out = Wait_opts impl e r in out # Waits_opts impl es (after out))"

text \<open>Any sequence of calls of \<^verbatim>\<open>Wait\<close> and \<^verbatim>\<open>Reset\<close>, and the retrier it leaves.\<close>

datatype call = CallWait env | CallReset

fun exec :: "(float64 \<Rightarrow> int) \<Rightarrow> call list \<Rightarrow> Retrier \<Rightarrow> Retrier" where
  "exec impl [] r = r"
| "exec impl (CallWait e # cs) r = exec impl cs (after (Wait impl e r))"
| "exec impl (CallReset # cs) r = exec impl cs (Reset r)"

fun exec_opts :: "(float64 \<Rightarrow> int) \<Rightarrow> call list \<Rightarrow> Retrier \<Rightarrow> Retrier" where
  "exec_opts impl [] r = r"
| "exec_opts impl (CallWait e # cs) r = exec_opts impl cs (after (Wait_opts impl e r))"
| "exec_opts impl (CallReset # cs) r = exec_opts impl cs (Reset r)"

text \<open>The durations \<^verbatim>\<open>time.After\<close> was given by the calls that returned \<^verbatim>\<open>true\<close>.\<close>

fun delays :: "outcome list \<Rightarrow> int list" where
  "delays [] = []"
| "delays (out # outs) =
     (case timer out of
        Some d \<Rightarrow> if ok out then d # delays outs else delays outs
      | None \<Rightarrow> delays outs)"

text \<open>The delays the retrier held after the calls that returned \<^verbatim>\<open>true\<close>.\<close>

fun stored :: "outcome list \<Rightarrow> int list" where
  "stored [] = []"
| "stored (out # outs) =
     (if ok out then Delay (after out) # stored outs else stored outs)"

text \<open>
  A list of delays that never decreases, never exceeds \<open>c\<close>, and from its first \<open>c\<close> on
  holds nothing but \<open>c\<close>.
\<close>

definition rises_to :: "int \<Rightarrow> int list \<Rightarrow> bool" where
  "rises_to c ds =
     (sorted ds \<and> list_all (\<lambda>d. d \<le> c) ds \<and> list_all (\<lambda>d. d = c) (dropWhile (\<lambda>d. d \<noteq> c) ds))"

subsection \<open>Concrete surroundings\<close>

text \<open>
  One implementation of the conversions Go leaves open: the least \<^verbatim>\<open>int64\<close>, which is
  what the conversion instruction of amd64 gives.
\<close>

definition impl_min :: "float64 \<Rightarrow> int" where
  "impl_min x = - (2 ^ 63)"

text \<open>
  A call under a context that is not cancelled; the random number is not consulted when
  \<^verbatim>\<open>Jitter\<close> is zero.
\<close>

definition quiet :: env where
  "quiet = \<lparr>ctx_done = False, NormFloat64 = Finite 0, timer_first = True\<rparr>"

text \<open>A call whose random number is \<open>-2\<close>, two standard deviations below the mean.\<close>

definition low_draw :: env where
  "low_draw = \<lparr>ctx_done = False, NormFloat64 = Finite (- 2), timer_first = True\<rparr>"

text \<open>A call whose context is cancelled while the timer runs.\<close>

definition cancelled_asleep :: env where
  "cancelled_asleep = \<lparr>ctx_done = False, NormFloat64 = Finite (- 2), timer_first = False\<rparr>"

text \<open>A call whose context is already cancelled.\<close>

definition cancelled_before :: env where
  "cancelled_before = \<lparr>ctx_done = True, NormFloat64 = Finite 0, timer_first = False\<rparr>"

text \<open>\<^verbatim>\<open>time.Millisecond\<close>, in nanoseconds.\<close>

definition Millisecond :: int where
  "Millisecond = 1000000"

text \<open>A retrier in the middle of its life, with as much jitter as delay.\<close>

definition jittery :: Retrier where
  "jittery = \<lparr>Attempts = 3, Delay = 10 * Millisecond, Floor = 10 * Millisecond,
      Ceil = 100 * Millisecond, Rate = Finite 2, Jitter = Finite 1\<rparr>"

text \<open>
  A retrier that doubles, with no limit on the attempts and no jitter: \<open>doubler 0\<close> is
  \<^verbatim>\<open>New(10*time.Millisecond, 100*time.Millisecond)\<close> with \<^verbatim>\<open>Rate = 2\<close>, and \<open>doubler d\<close> is
  that retrier once its delay is \<open>d\<close>.
\<close>

definition doubler :: "int \<Rightarrow> Retrier" where
  "doubler d = \<lparr>Attempts = 0, Delay = d, Floor = 10 * Millisecond, Ceil = 100 * Millisecond,
     Rate = Finite 2, Jitter = Finite 0\<rparr>"

text \<open>
  The bounds of \<^verbatim>\<open>int64\<close>, and a retrier whose floor is \<open>2 ^ 62\<close> nanoseconds (some 146
  years) and whose ceiling is the greatest duration.
\<close>

definition MaxInt64 :: int where
  "MaxInt64 = 2 ^ 63 - 1"

definition MinInt64 :: int where
  "MinInt64 = - (2 ^ 63)"

definition half_MaxInt64 :: int where
  "half_MaxInt64 = 2 ^ 62"

definition ancient :: "int \<Rightarrow> Retrier" where
  "ancient d = \<lparr>Attempts = 0, Delay = d, Floor = half_MaxInt64, Ceil = MaxInt64,
     Rate = Finite 2, Jitter = Finite 0\<rparr>"

section \<open>Rounding\<close>

lemma two_powi_pos: "0 < (2::rat) powi k"
  by (simp add: zero_less_power_int)

lemma two_powi_mono: "j \<le> k \<Longrightarrow> (2::rat) powi j \<le> 2 powi k"
  by (rule power_int_increasing) simp_all

lemma two_powi_strict_mono: "j < k \<Longrightarrow> (2::rat) powi j < 2 powi k"
  by (rule power_int_strict_increasing) simp_all

lemma two_powi_Suc: "(2::rat) powi (k + 1) = 2 * 2 powi k"
  by (simp add: power_int_add)

lemma bitlen_powi:
  assumes "0 < a"
  shows "(2::rat) powi (bitlen a - 1) \<le> of_int a" and "of_int a < (2::rat) powi bitlen a"
proof -
  have b: "1 \<le> bitlen a"
    using assms bitlen_nonneg [of a] bitlen_eq_zero_iff [of a] by linarith
  have "(2::int) ^ nat (bitlen a - 1) \<le> a" "a < 2 ^ nat (bitlen a)"
    using bitlen_bounds [OF assms] by simp_all
  then have "(of_int ((2::int) ^ nat (bitlen a - 1)) :: rat) \<le> of_int a"
    "(of_int a :: rat) < of_int ((2::int) ^ nat (bitlen a))"
    by (simp_all only: of_int_le_iff of_int_less_iff)
  then show "(2::rat) powi (bitlen a - 1) \<le> of_int a" "of_int a < (2::rat) powi bitlen a"
    using b by (simp_all add: power_int_def)
qed

lemma expo_bounds:
  assumes "x \<noteq> 0"
  shows "2 powi expo x \<le> \<bar>x\<bar>" and "\<bar>x\<bar> < 2 powi (expo x + 1)"
proof -
  obtain a b where q: "quotient_of \<bar>x\<bar> = (a, b)"
    by (cases "quotient_of \<bar>x\<bar>")
  have b: "0 < b" using q by (rule quotient_of_denom_pos)
  have x: "\<bar>x\<bar> = of_int a / of_int b" using q by (rule quotient_of_div)
  have "0 < \<bar>x\<bar>" using assms by simp
  then have a: "0 < a" using b x by (simp add: zero_less_divide_iff)
  define k where "k = bitlen a - bitlen b"
  have lo: "2 powi (k - 1) \<le> \<bar>x\<bar>"
  proof -
    have "(2::rat) powi (k - 1) = 2 powi (bitlen a - 1) / 2 powi bitlen b"
      by (simp add: k_def power_int_diff)
    also have "\<dots> \<le> of_int a / 2 powi bitlen b"
      using bitlen_powi(1) [OF a] by (simp add: divide_right_mono)
    also have "\<dots> \<le> of_int a / of_int b"
      using bitlen_powi(2) [OF b] a b by (simp add: frac_le)
    finally show ?thesis by (simp add: x)
  qed
  have hi: "\<bar>x\<bar> < 2 powi (k + 1)"
  proof -
    have "of_int a / of_int b < (2::rat) powi bitlen a / of_int b"
      using bitlen_powi(2) [OF a] b by (simp add: divide_strict_right_mono)
    also have "\<dots> \<le> 2 powi bitlen a / 2 powi (bitlen b - 1)"
      using bitlen_powi(1) [OF b] by (simp add: frac_le two_powi_pos)
    also have "\<dots> = 2 powi (k + 1)"
      by (simp add: k_def power_int_diff power_int_add)
    finally show ?thesis by (simp add: x)
  qed
  have e: "expo x = (if 2 powi k \<le> \<bar>x\<bar> then k else k - 1)"
    by (simp add: expo_def q k_def Let_def)
  show "2 powi expo x \<le> \<bar>x\<bar>" using lo by (simp add: e)
  show "\<bar>x\<bar> < 2 powi (expo x + 1)" using hi by (auto simp add: e)
qed

lemma expo_unique:
  assumes "2 powi k \<le> \<bar>x\<bar>" and "\<bar>x\<bar> < 2 powi (k + 1)"
  shows "expo x = k"
proof -
  have x: "x \<noteq> 0"
  proof
    assume "x = 0"
    with assms(1) have "(2::rat) powi k \<le> 0" by simp
    with two_powi_pos [of k] show False by linarith
  qed
  have "\<not> expo x < k"
  proof
    assume "expo x < k"
    then have "(2::rat) powi (expo x + 1) \<le> 2 powi k" by (intro two_powi_mono) simp
    with expo_bounds(2) [OF x] assms(1) show False by simp
  qed
  moreover have "\<not> k < expo x"
  proof
    assume "k < expo x"
    then have "(2::rat) powi (k + 1) \<le> 2 powi expo x" by (intro two_powi_mono) simp
    with expo_bounds(1) [OF x] assms(2) show False by simp
  qed
  ultimately show ?thesis by simp
qed

lemma expo_mono:
  assumes "0 < x" and "x \<le> y"
  shows "expo x \<le> expo y"
proof (rule ccontr)
  assume "\<not> expo x \<le> expo y"
  then have "(2::rat) powi (expo y + 1) \<le> 2 powi expo x" by (intro two_powi_mono) simp
  moreover have "y < 2 powi (expo y + 1)" using expo_bounds(2) [of y] assms by simp
  moreover have "2 powi expo x \<le> x" using expo_bounds(1) [of x] assms by simp
  ultimately show False using assms(2) by simp
qed

lemma rne_of_int: "rne (of_int n) = n"
  by (simp add: rne_def)

lemma rne_ge_floor: "\<lfloor>q\<rfloor> \<le> rne q"
  by (simp add: rne_def Let_def)

lemma rne_le_floor_Suc: "rne q \<le> \<lfloor>q\<rfloor> + 1"
  by (simp add: rne_def Let_def)

lemma rne_mono:
  assumes "x \<le> y"
  shows "rne x \<le> rne y"
proof (cases "\<lfloor>x\<rfloor> = \<lfloor>y\<rfloor>")
  case True
  with assms show ?thesis
    by (auto simp add: rne_def Let_def)
next
  case False
  with assms have "\<lfloor>x\<rfloor> + 1 \<le> \<lfloor>y\<rfloor>"
    using floor_mono [of x y] by linarith
  with rne_le_floor_Suc [of x] rne_ge_floor [of y] show ?thesis by linarith
qed

lemma expo_ge_0: "1 \<le> \<bar>x\<bar> \<Longrightarrow> 0 \<le> expo x"
proof (rule ccontr)
  assume x: "1 \<le> \<bar>x\<bar>" and "\<not> 0 \<le> expo x"
  then have "(2::rat) powi (expo x + 1) \<le> 2 powi 0" by (intro two_powi_mono) simp
  moreover have "\<bar>x\<bar> < 2 powi (expo x + 1)" using expo_bounds(2) [of x] x by auto
  ultimately show False using x by simp
qed

lemma round_f64_nearest:
  assumes "1 \<le> \<bar>x\<bar>"
  shows "round_f64 x =
    (if 2 powi 1024 \<le> \<bar>nearest x\<bar> then (if 0 < x then PInf else NInf) else Finite (nearest x))"
proof -
  have "max (expo x - 52) (- 1074) = expo x - 52"
    using expo_ge_0 [OF assms] by simp
  moreover have "x \<noteq> 0" using assms by auto
  ultimately show ?thesis
    by (simp add: round_f64_def nearest_def Let_def)
qed

text \<open>The significand: the scaled value lies between \<open>2 ^ 52\<close> and \<open>2 ^ 53\<close>.\<close>

lemma scaled_bounds:
  assumes "0 < x"
  shows "2 ^ 52 \<le> x / 2 powi (expo x - 52)" and "x / 2 powi (expo x - 52) < 2 ^ 53"
proof -
  have x: "x \<noteq> 0" "\<bar>x\<bar> = x" using assms by simp_all
  have "(2::rat) ^ 52 * 2 powi (expo x - 52) = 2 powi expo x"
    by (simp add: power_int_diff)
  then show "2 ^ 52 \<le> x / 2 powi (expo x - 52)"
    using expo_bounds(1) [OF x(1)] x(2) by (simp add: pos_le_divide_eq two_powi_pos)
  have "(2::rat) ^ 53 * 2 powi (expo x - 52) = 2 powi (expo x + 1)"
    by (simp add: power_int_diff power_int_add)
  then show "x / 2 powi (expo x - 52) < 2 ^ 53"
    using expo_bounds(2) [OF x(1)] x(2) by (simp add: pos_divide_less_eq two_powi_pos)
qed

lemma rne_scaled_bounds:
  assumes "0 < x"
  shows "2 ^ 52 \<le> rne (x / 2 powi (expo x - 52))" and "rne (x / 2 powi (expo x - 52)) \<le> 2 ^ 53"
proof -
  have "rne (of_int (2 ^ 52)) \<le> rne (x / 2 powi (expo x - 52))"
    using scaled_bounds(1) [OF assms] by (intro rne_mono) simp
  then show "2 ^ 52 \<le> rne (x / 2 powi (expo x - 52))"
    by (simp only: rne_of_int)
  have "rne (x / 2 powi (expo x - 52)) \<le> rne (of_int (2 ^ 53))"
    using scaled_bounds(2) [OF assms] by (intro rne_mono) simp
  then show "rne (x / 2 powi (expo x - 52)) \<le> 2 ^ 53"
    by (simp only: rne_of_int)
qed

lemma nearest_bounds:
  assumes "0 < x"
  shows "2 powi expo x \<le> nearest x" and "nearest x \<le> 2 powi (expo x + 1)"
proof -
  have "(2::rat) powi expo x = 2 ^ 52 * 2 powi (expo x - 52)"
    by (simp add: power_int_diff)
  also have "\<dots> \<le> of_int (rne (x / 2 powi (expo x - 52))) * 2 powi (expo x - 52)"
    using rne_scaled_bounds(1) [OF assms]
    by (intro mult_right_mono) (simp_all add: two_powi_pos less_imp_le of_int_le_numeral_power_cancel_iff)
  finally show "2 powi expo x \<le> nearest x" by (simp add: nearest_def)
  have "of_int (rne (x / 2 powi (expo x - 52))) * 2 powi (expo x - 52)
      \<le> (2::rat) ^ 53 * 2 powi (expo x - 52)"
    using rne_scaled_bounds(2) [OF assms]
    by (intro mult_right_mono) (simp_all add: two_powi_pos less_imp_le of_int_le_numeral_power_cancel_iff)
  also have "\<dots> = 2 powi (expo x + 1)"
    by (simp add: power_int_diff power_int_add)
  finally show "nearest x \<le> 2 powi (expo x + 1)" by (simp add: nearest_def)
qed

lemma nearest_mono:
  assumes "0 < x" and "x \<le> y"
  shows "nearest x \<le> nearest y"
proof (cases "expo x = expo y")
  case True
  have "x / 2 powi (expo y - 52) \<le> y / 2 powi (expo y - 52)"
    using assms(2) by (simp add: divide_right_mono two_powi_pos less_imp_le)
  then have "rne (x / 2 powi (expo y - 52)) \<le> rne (y / 2 powi (expo y - 52))"
    by (rule rne_mono)
  then show ?thesis
    by (simp add: nearest_def True mult_right_mono two_powi_pos less_imp_le)
next
  case False
  with expo_mono [OF assms] have "expo x + 1 \<le> expo y" by simp
  then have "(2::rat) powi (expo x + 1) \<le> 2 powi expo y" by (rule two_powi_mono)
  moreover have "0 < y" using assms by simp
  ultimately show ?thesis
    using nearest_bounds(2) [OF assms(1)] nearest_bounds(1) [of y] by simp
qed

lemma nearest_of_int_scaled:
  assumes "x / 2 powi (expo x - 52) = of_int n"
  shows "nearest x = x"
proof -
  have "nearest x = of_int n * 2 powi (expo x - 52)"
    by (simp add: nearest_def assms rne_of_int)
  also have "\<dots> = x"
    using assms [symmetric] by (simp add: power_int_eq_0_iff)
  finally show ?thesis .
qed

lemma nearest_exact:
  assumes x: "x = of_int m * 2 powi k" and m: "\<bar>m\<bar> \<le> 2 ^ 53" and "x \<noteq> 0"
  shows "nearest x = x"
proof -
  have ax: "\<bar>x\<bar> = of_int \<bar>m\<bar> * 2 powi k"
    by (simp add: x abs_mult)
  have "of_int \<bar>m\<bar> \<le> (2::rat) ^ 53"
    using m by (simp add: of_int_le_numeral_power_cancel_iff)
  then have "\<bar>x\<bar> \<le> 2 ^ 53 * 2 powi k"
    unfolding ax by (intro mult_right_mono) (simp_all add: less_imp_le two_powi_pos)
  also have "\<dots> = 2 powi (k + 53)"
    by (simp add: power_int_add)
  finally have up: "\<bar>x\<bar> \<le> 2 powi (k + 53)" .
  have le: "expo x \<le> k + 53"
  proof (rule ccontr)
    assume "\<not> expo x \<le> k + 53"
    then have "(2::rat) powi (k + 53) < 2 powi expo x" by (intro two_powi_strict_mono) simp
    with expo_bounds(1) [OF \<open>x \<noteq> 0\<close>] up show False by simp
  qed
  show ?thesis
  proof (cases "expo x = k + 53")
    case True
    have "2 powi (k + 53) \<le> \<bar>x\<bar>"
      using expo_bounds(1) [OF \<open>x \<noteq> 0\<close>] by (simp add: True)
    with up have "\<bar>x\<bar> = 2 powi (k + 53)" by simp
    then have "of_int \<bar>m\<bar> * 2 powi k = (2::rat) ^ 53 * 2 powi k"
      by (simp add: ax power_int_add)
    then have "(of_int \<bar>m\<bar> :: rat) = of_int (2 ^ 53)"
      by (simp add: power_int_eq_0_iff)
    then have am: "\<bar>m\<bar> = 2 ^ 53"
      by (simp only: of_int_eq_iff)
    then have "even m"
      by (cases "0 \<le> m") (simp_all, presburger)
    then have ev: "m = 2 * (m div 2)"
      by simp
    have "expo x - 52 = k + 1"
      using True by simp
    then have "x / 2 powi (expo x - 52) = x / 2 powi (k + 1)"
      by (simp only:)
    also have "\<dots> = of_int m * 2 powi k / 2 powi (k + 1)"
      by (simp only: x)
    also have "\<dots> = of_int m / 2"
      by (simp add: power_int_add)
    also have "\<dots> = of_int (m div 2)"
      by (subst ev) simp
    finally show ?thesis by (rule nearest_of_int_scaled)
  next
    case False
    with le have j: "0 \<le> k - (expo x - 52)" by simp
    define j where "j = expo x - 52"
    have "x / 2 powi j = of_int m * 2 powi k / 2 powi j"
      by (simp only: x)
    also have "\<dots> = of_int m * 2 powi (k - j)"
      by (simp add: power_int_diff)
    finally have "x / 2 powi (expo x - 52) = of_int m * 2 powi (k - (expo x - 52))"
      by (simp only: j_def)
    also have "\<dots> = of_int m * 2 ^ nat (k - (expo x - 52))"
      using j by (simp add: power_int_def)
    also have "\<dots> = of_int (m * 2 ^ nat (k - (expo x - 52)))"
      by simp
    finally show ?thesis by (rule nearest_of_int_scaled)
  qed
qed

lemma round_f64_exact:
  assumes "x = of_int m * 2 powi k" and "\<bar>m\<bar> \<le> 2 ^ 53" and "1 \<le> \<bar>x\<bar>" and "\<bar>x\<bar> < 2 powi 1024"
  shows "round_f64 x = Finite x"
proof -
  have "x \<noteq> 0" using assms(3) by auto
  then have "nearest x = x" using assms(1,2) by (intro nearest_exact)
  then show ?thesis using assms(3,4) by (simp add: round_f64_nearest)
qed

lemma round_f64_of_int:
  assumes "\<bar>n\<bar> \<le> 2 ^ 53"
  shows "round_f64 (of_int n) = Finite (of_int n)"
proof (cases "n = 0")
  case True
  then show ?thesis by (simp add: round_f64_def)
next
  case False
  have "\<bar>of_int n :: rat\<bar> = of_int \<bar>n\<bar>" by simp
  also have "\<dots> \<le> of_int (2 ^ 53)" using assms by (simp only: of_int_le_iff)
  also have "\<dots> < 2 powi 1024" by simp
  finally have "\<bar>of_int n :: rat\<bar> < 2 powi 1024" .
  moreover have "1 \<le> \<bar>of_int n :: rat\<bar>" using False by (simp add: of_int_abs [symmetric] del: of_int_abs)
  ultimately show ?thesis
    using assms by (intro round_f64_exact [where m = n and k = 0]) simp_all
qed

lemma round_f64_numeral:
  "(numeral w :: int) \<le> 2 ^ 53 \<Longrightarrow> round_f64 (numeral w) = Finite (numeral w)"
  "(numeral w :: int) \<le> 2 ^ 53 \<Longrightarrow> round_f64 (- numeral w) = Finite (- numeral w)"
  using round_f64_of_int [of "numeral w"] round_f64_of_int [of "- numeral w"] by simp_all

lemma float64_above_1:
  assumes "is_float64 r" and "1 < r"
  shows "1 + 1 / 2 ^ 52 \<le> r"
proof -
  have r1: "1 \<le> \<bar>r\<bar>" using assms(2) by simp
  have n: "nearest r = r"
    using assms(1) unfolding is_float64_def round_f64_nearest [OF r1]
    by (simp split: if_splits)
  have e0: "0 \<le> expo r" using r1 by (rule expo_ge_0)
  show ?thesis
  proof (cases "expo r = 0")
    case True
    define M where "M = rne (r / 2 powi (expo r - 52))"
    have "r = of_int M * 2 powi (- 52)"
      using n by (simp add: nearest_def M_def True)
    moreover have "(2::rat) powi (- 52) = 1 / 2 ^ 52"
      by (simp add: power_int_minus_divide)
    ultimately have r: "r = of_int M / 2 ^ 52"
      by (simp only: times_divide_eq_right mult_1_right)
    with assms(2) have "(of_int (2 ^ 52) :: rat) < of_int M"
      by (simp add: pos_less_divide_eq)
    then have "2 ^ 52 < M" by (simp only: of_int_less_iff)
    then have "2 ^ 52 + 1 \<le> M" by simp
    then have "(of_int (2 ^ 52 + 1) :: rat) \<le> of_int M" by (simp only: of_int_le_iff)
    then show ?thesis
      by (simp add: r pos_le_divide_eq add_divide_distrib distrib_right)
  next
    case False
    with e0 have "(2::rat) powi 1 \<le> 2 powi expo r" by (intro two_powi_mono) simp
    moreover have "2 powi expo r \<le> r" using expo_bounds(1) [of r] assms(2) by simp
    ultimately have "2 \<le> r" by simp
    then show ?thesis by simp
  qed
qed

lemma trunc_ge:
  assumes "of_int d \<le> y" and "0 \<le> d"
  shows "d \<le> trunc y"
proof -
  have "0 \<le> y" using assms by (meson of_int_0_le_iff order_trans)
  then show ?thesis using assms(1) by (simp add: trunc_def le_floor_iff)
qed

lemma nearest_grow_ge:
  assumes d: "1 \<le> x" and r: "1 + 1 / 2 ^ 52 \<le> r"
  shows "x \<le> nearest (nearest x * r)"
proof -
  define e where "e = expo x - 52"
  define q where "q = x / 2 powi e"
  define M where "M = rne q"
  have x0: "0 < x" using d by simp
  have a: "nearest x = of_int M * 2 powi e"
    by (simp add: nearest_def M_def q_def e_def)
  have xq: "x = q * 2 powi e"
    by (simp add: q_def power_int_eq_0_iff)
  have M: "2 ^ 52 \<le> M" "M \<le> 2 ^ 53"
    using rne_scaled_bounds [OF x0] by (simp_all add: M_def q_def e_def)
  have qb: "q < 2 ^ 53"
    using scaled_bounds(2) [OF x0] by (simp add: q_def e_def)
  have p: "0 < (2::rat) powi e" by (rule two_powi_pos)
  have Mr: "(2::rat) ^ 52 \<le> of_int M"
    using M(1) by (simp add: numeral_power_le_of_int_cancel_iff)
  have a0: "0 < nearest x"
    unfolding a using Mr p by (intro mult_pos_pos) simp_all
  have r1: "1 \<le> r" using r by (simp add: order_trans [OF _ r])
  have ar: "nearest x \<le> nearest x * r"
    using a0 r1 by simp
  show ?thesis
  proof (cases "q \<le> of_int M")
    case True
    have "q * 2 powi e \<le> of_int M * 2 powi e"
      using True p by (intro mult_right_mono) simp_all
    then have "x \<le> nearest x"
      by (simp only: a xq [symmetric])
    also have "\<dots> = nearest (nearest x)"
      using M a0 by (intro nearest_exact [symmetric, OF a]) simp_all
    also have "\<dots> \<le> nearest (nearest x * r)"
      using a0 ar by (rule nearest_mono)
    finally show ?thesis .
  next
    case False
    then have lt: "of_int M < q" by simp
    with qb have "(of_int M :: rat) < of_int (2 ^ 53)" by simp
    then have "M < 2 ^ 53" by (simp only: of_int_less_iff)
    then have M1: "M + 1 \<le> 2 ^ 53" by simp
    define b :: rat where "b = of_int (M + 1) * 2 powi e"
    have "\<lfloor>q\<rfloor> \<le> M" unfolding M_def by (rule rne_ge_floor)
    then have "q < of_int (M + 1)"
      by (metis floor_less_iff less_le_not_le add.commute zle_add1_eq_le linorder_not_less of_int_less_iff floor_le_iff)
    then have "q * 2 powi e \<le> of_int (M + 1) * 2 powi e"
      using p by (intro mult_right_mono) simp_all
    then have xb: "x \<le> b"
      by (simp only: b_def xq [symmetric])
    have b0: "0 < b"
      using x0 xb by simp
    have "b = of_int M * 2 powi e + 2 powi e"
      by (simp add: b_def distrib_right)
    also have "\<dots> \<le> of_int M * 2 powi e + of_int M * 2 powi e * (1 / 2 ^ 52)"
    proof -
      have "(2::rat) powi e = 2 ^ 52 * 2 powi e * (1 / 2 ^ 52)" by simp
      also have "\<dots> \<le> of_int M * 2 powi e * (1 / 2 ^ 52)"
        using Mr p by (intro mult_right_mono) simp_all
      finally show ?thesis by simp
    qed
    also have "\<dots> = nearest x * (1 + 1 / 2 ^ 52)"
      by (simp add: a distrib_left)
    also have "\<dots> \<le> nearest x * r"
      using a0 r by (intro mult_left_mono) simp_all
    finally have br: "b \<le> nearest x * r" .
    have "x \<le> b" by (rule xb)
    also have "\<dots> = nearest b"
      using M M1 b0 by (intro nearest_exact [symmetric, OF b_def]) simp_all
    also have "\<dots> \<le> nearest (nearest x * r)"
      using b0 br by (rule nearest_mono)
    finally show ?thesis .
  qed
qed

section \<open>Reset\<close>

text \<open>
  C7. \<^verbatim>\<open>Reset\<close> sets the delay to zero and leaves every other field as it was; the
  attempt budget is neither restored nor changed.
\<close>

theorem Reset_frame:
  "Delay (Reset r) = 0 \<and> Attempts (Reset r) = Attempts r \<and> Floor (Reset r) = Floor r \<and>
   Ceil (Reset r) = Ceil r \<and> Rate (Reset r) = Rate r \<and> Jitter (Reset r) = Jitter r \<and>
   Reset r = r\<lparr>Delay := 0\<rparr>"
  by (simp add: Reset_def)

section \<open>One call of Wait\<close>

lemma advance_frame:
  "Attempts (advance impl e r) = Attempts r" "Floor (advance impl e r) = Floor r"
  "Ceil (advance impl e r) = Ceil r" "Rate (advance impl e r) = Rate r"
  "Jitter (advance impl e r) = Jitter r"
  by (simp_all add: advance_def Let_def)

lemma advance_le_Ceil: "Delay (advance impl e r) \<le> Ceil r"
  by (simp add: advance_def Let_def)

lemma sleep_frame:
  "Attempts (after (sleep e r)) = Attempts r" "Floor (after (sleep e r)) = Floor r"
  "Ceil (after (sleep e r)) = Ceil r" "Rate (after (sleep e r)) = Rate r"
  "Jitter (after (sleep e r)) = Jitter r"
  by (simp_all add: sleep_def)

lemma sleep_ok: "ok (sleep e r) = timer_first e"
  by (simp add: sleep_def)

lemma sleep_timer: "timer (sleep e r) = Some (Delay r)"
  by (simp add: sleep_def)

lemma Wait_frame:
  "Floor (after (Wait impl e r)) = Floor r" "Ceil (after (Wait impl e r)) = Ceil r"
  "Rate (after (Wait impl e r)) = Rate r" "Jitter (after (Wait impl e r)) = Jitter r"
  by (simp_all add: Wait_def Let_def sleep_frame advance_frame)

lemma Wait_opts_frame:
  "Floor (after (Wait_opts impl e r)) = Floor r" "Ceil (after (Wait_opts impl e r)) = Ceil r"
  "Rate (after (Wait_opts impl e r)) = Rate r" "Jitter (after (Wait_opts impl e r)) = Jitter r"
  by (simp_all add: Wait_opts_def Let_def sleep_frame advance_frame)

text \<open>The budget, the result, the timer and the stored delay of a call of \<^verbatim>\<open>retrier.go\<close>.\<close>

lemma Wait_Attempts:
  "Attempts (after (Wait impl e r)) =
     (if \<not> ctx_done e \<and> 1 < Attempts r then Attempts r - 1 else Attempts r)"
  by (simp add: Wait_def Let_def sleep_frame advance_frame)

lemma Wait_ok_iff:
  "ok (Wait impl e r) = (\<not> ctx_done e \<and> timer_first e \<and> Attempts r \<noteq> 1)"
  by (auto simp add: Wait_def Let_def sleep_ok advance_frame)

lemma Wait_timer:
  "timer (Wait impl e r) =
     (if ctx_done e \<or> Attempts r = 1 then None else Some (Delay (advance impl e r)))"
  by (auto simp add: Wait_def Let_def sleep_def advance_frame)

lemma Wait_Delay:
  "Delay (after (Wait impl e r)) =
     (if ctx_done e then Delay r
      else if ok (Wait impl e r) then max (Floor r) (Delay (advance impl e r))
      else Delay (advance impl e r))"
  by (auto simp add: Wait_def Let_def sleep_def advance_frame)

text \<open>The same of a call of \<^verbatim>\<open>part_001\<close>.\<close>

lemma Wait_opts_Attempts:
  "Attempts (after (Wait_opts impl e r)) =
     (if \<not> ctx_done e \<and> 1 \<le> Attempts r then Attempts r - 1 else Attempts r)"
  by (simp add: Wait_opts_def Let_def sleep_frame advance_frame)

lemma Wait_opts_ok_iff:
  "ok (Wait_opts impl e r) = (\<not> ctx_done e \<and> timer_first e \<and> Attempts r \<noteq> 0)"
  by (auto simp add: Wait_opts_def Let_def sleep_ok advance_frame)

lemma Wait_opts_timer:
  "timer (Wait_opts impl e r) =
     (if ctx_done e \<or> Attempts r = 0 then None else Some (Delay (advance impl e r)))"
  by (auto simp add: Wait_opts_def Let_def sleep_def advance_frame)

lemma Wait_opts_Delay:
  "Delay (after (Wait_opts impl e r)) =
     (if ctx_done e then Delay r
      else if ok (Wait_opts impl e r) then max (Floor r) (Delay (advance impl e r))
      else Delay (advance impl e r))"
  by (auto simp add: Wait_opts_def Let_def sleep_def advance_frame)

text \<open>Without jitter the random number is not read.\<close>

lemma advance_Delay_no_jitter:
  "Jitter r = Finite 0 \<Longrightarrow>
   Delay (advance impl e r) =
     (let d = (if Delay r < Ceil r
               then Duration_of_float64 impl (fmul (float64_of_int (Delay r)) (Rate r))
               else Delay r)
      in if Ceil r < d then Ceil r else d)"
  by (simp add: advance_def applyJitter_def Let_def)

subsection \<open>Concrete calls\<close>

lemma quiet_never: "never_cancelled quiet"
  by (simp add: never_cancelled_def quiet_def)

lemma round_f64_0: "round_f64 0 = Finite 0"
  by (simp add: round_f64_def)

lemma float64_of_int_0: "float64_of_int 0 = Finite 0"
  by (simp add: float64_of_int_def round_f64_0)

lemma Duration_of_float64_0: "Duration_of_float64 impl (Finite 0) = 0"
  by (simp add: Duration_of_float64_def trunc_def)

lemma Duration_fits: "fits_int64 (Finite q) \<Longrightarrow> Duration_of_float64 impl (Finite q) = trunc q"
  by (simp add: Duration_of_float64_def)

lemma grow_10ms: "fmul (float64_of_int 10000000) (Finite 2) = Finite 20000000"
  by (simp add: float64_of_int_def round_f64_numeral)

lemma jitter_draw:
  "fadd (fmul (Finite (- 2)) (fmul (Finite 1) (float64_of_int 20000000))) (float64_of_int 20000000)
     = Finite (- 20000000)"
  by (simp add: float64_of_int_def round_f64_numeral)

text \<open>
  From 10 ms the delay doubles to 20 ms; the draw \<open>-2\<close> with \<^verbatim>\<open>Jitter = 1\<close> then gives
  \<open>-2 * (1 * 20 ms) + 20 ms = -20 ms\<close>, which no clamp to \<^verbatim>\<open>Ceil\<close> changes.
\<close>

lemma advance_jittery:
  "NormFloat64 e = Finite (- 2) \<Longrightarrow>
   Delay (advance impl e (jittery\<lparr>Attempts := a\<rparr>)) = - 20 * Millisecond"
  by (simp add: advance_def jittery_def applyJitter_def Let_def Millisecond_def grow_10ms
      jitter_draw Duration_fits trunc_def)

lemma jittery_Attempts: "jittery = jittery\<lparr>Attempts := 3\<rparr>"
  by (simp add: jittery_def)

section \<open>The attempt budget\<close>

lemma Waits_budget:
  "\<forall>e \<in> set es. never_cancelled e \<Longrightarrow> Attempts r = int (Suc n) \<Longrightarrow> length es = Suc n \<Longrightarrow>
   map ok (Waits impl es r) = replicate n True @ [False]"
proof (induction es arbitrary: r n)
  case Nil
  then show ?case by simp
next
  case (Cons e es)
  have nc: "\<not> ctx_done e" "timer_first e"
    using Cons.prems(1) by (simp_all add: never_cancelled_def)
  show ?case
  proof (cases n)
    case 0
    with Cons.prems nc show ?thesis by (simp add: Wait_ok_iff)
  next
    case (Suc m)
    let ?r' = "after (Wait impl e r)"
    have a: "Attempts ?r' = int (Suc m)"
      using Suc Cons.prems(2) nc by (simp add: Wait_Attempts)
    have "map ok (Waits impl es ?r') = replicate m True @ [False]"
      using Cons.prems Suc a by (intro Cons.IH) auto
    moreover have "ok (Wait impl e r)"
      using Suc Cons.prems(2) nc by (simp add: Wait_ok_iff)
    ultimately show ?thesis
      using Suc by (simp add: Let_def)
  qed
qed

lemma Waits_opts_budget:
  "\<forall>e \<in> set es. never_cancelled e \<Longrightarrow> Attempts r = int n \<Longrightarrow> length es = Suc n \<Longrightarrow>
   map ok (Waits_opts impl es r) = replicate n True @ [False]"
proof (induction es arbitrary: r n)
  case Nil
  then show ?case by simp
next
  case (Cons e es)
  have nc: "\<not> ctx_done e" "timer_first e"
    using Cons.prems(1) by (simp_all add: never_cancelled_def)
  show ?case
  proof (cases n)
    case 0
    with Cons.prems nc show ?thesis by (simp add: Wait_opts_ok_iff)
  next
    case (Suc m)
    let ?r' = "after (Wait_opts impl e r)"
    have a: "Attempts ?r' = int m"
      using Suc Cons.prems(2) nc by (simp add: Wait_opts_Attempts)
    have "map ok (Waits_opts impl es ?r') = replicate m True @ [False]"
      using Cons.prems Suc a by (intro Cons.IH) auto
    moreover have "ok (Wait_opts impl e r)"
      using Suc Cons.prems(2) nc by (simp add: Wait_opts_ok_iff)
    ultimately show ?thesis
      using Suc by (simp add: Let_def)
  qed
qed

text \<open>
  C1, as amended. With a context that is never cancelled and a budget \<open>k \<ge> 1\<close> in
  \<^verbatim>\<open>Attempts\<close>: in \<^verbatim>\<open>retrier.go\<close> the first \<open>k - 1\<close> calls of \<^verbatim>\<open>Wait\<close> return \<^verbatim>\<open>true\<close> and
  call \<open>k\<close> returns \<^verbatim>\<open>false\<close>; in \<^verbatim>\<open>part_001\<close>, where the budget is an option of \<^verbatim>\<open>New\<close>, the
  first \<open>k\<close> calls return \<^verbatim>\<open>true\<close> and call \<open>k + 1\<close> returns \<^verbatim>\<open>false\<close>. The jitter plays no
  part. The list \<open>es\<close> holds what the \<open>k + 1\<close> calls observe.
\<close>

theorem Wait_budget_count:
  assumes "\<forall>e \<in> set es. never_cancelled e" and "1 \<le> k" and "Attempts r = k"
    and "length es = Suc (nat k)"
  shows "map ok (Waits impl (take (nat k) es) r) = replicate (nat k - 1) True @ [False] \<and>
         map ok (Waits_opts impl es r) = replicate (nat k) True @ [False]"
proof -
  define n where "n = nat (k - 1)"
  have nk: "nat k = Suc n"
    using assms(2) by (simp add: n_def)
  have ak: "Attempts r = int (Suc n)"
    using assms(2,3) by (simp add: n_def)
  have t: "\<forall>e \<in> set (take (Suc n) es). never_cancelled e"
    using assms(1) by (meson in_set_takeD)
  have l: "length (take (Suc n) es) = Suc n"
    using assms(4) by (simp add: nk)
  have "map ok (Waits impl (take (Suc n) es) r) = replicate n True @ [False]"
    using t ak l by (rule Waits_budget)
  moreover have "map ok (Waits_opts impl es r) = replicate (Suc n) True @ [False]"
    using assms(1) ak assms(4) [unfolded nk] by (rule Waits_opts_budget)
  ultimately show ?thesis
    unfolding nk by simp
qed

theorem Wait_budget_count_witness:
  "never_cancelled quiet \<and> (1::int) \<le> 5 \<and>
   Attempts (jittery\<lparr>Attempts := 5\<rparr>) = 5 \<and> length (replicate 6 quiet) = Suc (nat 5) \<and>
   map ok (Waits impl_min (take (nat 5) (replicate 6 quiet)) (jittery\<lparr>Attempts := 5\<rparr>))
     = [True, True, True, True, False] \<and>
   map ok (Waits_opts impl_min (replicate 6 quiet) (jittery\<lparr>Attempts := 5\<rparr>))
     = [True, True, True, True, True, False]"
proof -
  have h: "\<forall>e \<in> set (replicate 6 quiet). never_cancelled e"
    by (simp add: quiet_never)
  have k: "(1::int) \<le> 5"
    by simp
  have a: "Attempts (jittery\<lparr>Attempts := 5\<rparr>) = 5"
    by simp
  have l: "length (replicate 6 quiet) = Suc (nat 5)"
    by simp
  have r: "replicate (nat 5 - 1) True @ [False] = [True, True, True, True, False]"
    "replicate (nat 5) True @ [False] = [True, True, True, True, True, False]"
    by (simp_all add: numeral_eq_Suc)
  show ?thesis
    using Wait_budget_count [OF h k a l, of impl_min] quiet_never l unfolding r by simp
qed

text \<open>
  C1 as it was stated fails on \<^verbatim>\<open>part_001\<close>: with \<^verbatim>\<open>Attempts(5)\<close> given to \<^verbatim>\<open>New\<close>, the
  fifth call still returns \<^verbatim>\<open>true\<close>.
\<close>

theorem Wait_opts_budget_counterexample:
  "map ok (Waits_opts impl_min (replicate 5 quiet)
            (New_opts 0 (100 * Millisecond) [Attempts_opt 5]))
     = [True, True, True, True, True]"
  by (simp add: numeral_eq_Suc Let_def Wait_opts_ok_iff Wait_opts_Attempts New_opts_def
      Attempts_opt_def quiet_def)

lemma exec_Attempts_1: "Attempts r = 1 \<Longrightarrow> Attempts (exec impl cs r) = 1"
proof (induction cs arbitrary: r)
  case Nil
  then show ?case by simp
next
  case (Cons c cs)
  then show ?case by (cases c) (simp_all add: Wait_Attempts Reset_def)
qed

lemma exec_opts_Attempts_0: "Attempts r = 0 \<Longrightarrow> Attempts (exec_opts impl cs r) = 0"
proof (induction cs arbitrary: r)
  case Nil
  then show ?case by simp
next
  case (Cons c cs)
  then show ?case by (cases c) (simp_all add: Wait_opts_Attempts Reset_def)
qed

lemma exec_Attempts_pos: "0 < Attempts r \<Longrightarrow> 0 < Attempts (exec impl cs r)"
proof (induction cs arbitrary: r)
  case Nil
  then show ?case by simp
next
  case (Cons c cs)
  then show ?case by (cases c) (simp_all add: Wait_Attempts Reset_def)
qed

text \<open>
  C5. Once the budget check has fired (a call whose context was not cancelled at entry
  returned without reaching the timer), every later call of \<^verbatim>\<open>Wait\<close>, after any calls of
  \<^verbatim>\<open>Wait\<close> and \<^verbatim>\<open>Reset\<close> in between and whatever it observes, returns \<^verbatim>\<open>false\<close>, starts no
  timer, and leaves \<^verbatim>\<open>Attempts\<close> as it is. In both versions of the file.
\<close>

theorem exhausted_stays_exhausted:
  "(\<not> ctx_done e0 \<and> timer (Wait impl e0 r0) = None \<longrightarrow>
      \<not> ok (Wait impl e (exec impl cs (after (Wait impl e0 r0)))) \<and>
      timer (Wait impl e (exec impl cs (after (Wait impl e0 r0)))) = None \<and>
      Attempts (after (Wait impl e (exec impl cs (after (Wait impl e0 r0))))) =
        Attempts (after (Wait impl e0 r0))) \<and>
   (\<not> ctx_done e1 \<and> timer (Wait_opts impl e1 r1) = None \<longrightarrow>
      \<not> ok (Wait_opts impl e (exec_opts impl cs (after (Wait_opts impl e1 r1)))) \<and>
      timer (Wait_opts impl e (exec_opts impl cs (after (Wait_opts impl e1 r1)))) = None \<and>
      Attempts (after (Wait_opts impl e (exec_opts impl cs (after (Wait_opts impl e1 r1))))) =
        Attempts (after (Wait_opts impl e1 r1)))"
proof (intro conjI impI)
  assume a: "\<not> ctx_done e0 \<and> timer (Wait impl e0 r0) = None"
  then have "Attempts r0 = 1" by (auto simp add: Wait_timer split: if_splits)
  then have one: "Attempts (after (Wait impl e0 r0)) = 1" by (simp add: Wait_Attempts)
  then have ex: "Attempts (exec impl cs (after (Wait impl e0 r0))) = 1"
    by (rule exec_Attempts_1)
  show "\<not> ok (Wait impl e (exec impl cs (after (Wait impl e0 r0))))"
    using ex by (simp add: Wait_ok_iff)
  show "timer (Wait impl e (exec impl cs (after (Wait impl e0 r0)))) = None"
    using ex by (simp add: Wait_timer)
  show "Attempts (after (Wait impl e (exec impl cs (after (Wait impl e0 r0))))) =
        Attempts (after (Wait impl e0 r0))"
    using ex one by (simp add: Wait_Attempts)
next
  assume a: "\<not> ctx_done e1 \<and> timer (Wait_opts impl e1 r1) = None"
  then have "Attempts r1 = 0" by (auto simp add: Wait_opts_timer split: if_splits)
  then have zero: "Attempts (after (Wait_opts impl e1 r1)) = 0" by (simp add: Wait_opts_Attempts)
  then have ex: "Attempts (exec_opts impl cs (after (Wait_opts impl e1 r1))) = 0"
    by (rule exec_opts_Attempts_0)
  show "\<not> ok (Wait_opts impl e (exec_opts impl cs (after (Wait_opts impl e1 r1))))"
    using ex by (simp add: Wait_opts_ok_iff)
  show "timer (Wait_opts impl e (exec_opts impl cs (after (Wait_opts impl e1 r1)))) = None"
    using ex by (simp add: Wait_opts_timer)
  show "Attempts (after (Wait_opts impl e (exec_opts impl cs (after (Wait_opts impl e1 r1))))) =
        Attempts (after (Wait_opts impl e1 r1))"
    using ex zero by (simp add: Wait_opts_Attempts)
qed

theorem exhausted_stays_exhausted_witness:
  "\<not> ctx_done quiet \<and> timer (Wait impl_min quiet (jittery\<lparr>Attempts := 1\<rparr>)) = None \<and>
   timer (Wait_opts impl_min quiet (jittery\<lparr>Attempts := 0\<rparr>)) = None \<and>
   \<not> ok (Wait impl_min quiet (exec impl_min [CallReset, CallWait quiet]
          (after (Wait impl_min quiet (jittery\<lparr>Attempts := 1\<rparr>))))) \<and>
   \<not> ok (Wait_opts impl_min quiet (exec_opts impl_min [CallReset, CallWait quiet]
          (after (Wait_opts impl_min quiet (jittery\<lparr>Attempts := 0\<rparr>)))))"
proof -
  have q: "\<not> ctx_done quiet"
    by (simp add: quiet_def)
  have t: "timer (Wait impl_min quiet (jittery\<lparr>Attempts := 1\<rparr>)) = None"
    by (simp add: Wait_timer)
  have u: "timer (Wait_opts impl_min quiet (jittery\<lparr>Attempts := 0\<rparr>)) = None"
    by (simp add: Wait_opts_timer)
  show ?thesis
    using exhausted_stays_exhausted [of quiet impl_min "jittery\<lparr>Attempts := 1\<rparr>" quiet
        "[CallReset, CallWait quiet]" quiet "jittery\<lparr>Attempts := 0\<rparr>"] q t u
    by blast
qed

text \<open>
  C9. In \<^verbatim>\<open>retrier.go\<close> a call of \<^verbatim>\<open>Wait\<close> lowers \<^verbatim>\<open>Attempts\<close> only when it is above 1 (and
  the context is not cancelled at entry); so a budget that is positive stays at least 1
  over every sequence of calls of \<^verbatim>\<open>Wait\<close> and \<^verbatim>\<open>Reset\<close>, and never becomes the 0 that
  stands for no limit.
\<close>

theorem finite_budget_never_zero:
  "Attempts (after (Wait impl e r)) =
     (if \<not> ctx_done e \<and> 1 < Attempts r then Attempts r - 1 else Attempts r) \<and>
   (0 < Attempts r \<longrightarrow> 1 \<le> Attempts (exec impl cs r))"
  using exec_Attempts_pos [of r impl cs] by (auto simp add: Wait_Attempts)

theorem finite_budget_never_zero_witness:
  "0 < Attempts (jittery\<lparr>Attempts := 2\<rparr>) \<and>
   1 \<le> Attempts (exec impl_min [CallWait quiet, CallReset, CallWait quiet, CallWait quiet]
          (jittery\<lparr>Attempts := 2\<rparr>))"
  using finite_budget_never_zero [of impl_min quiet "jittery\<lparr>Attempts := 2\<rparr>"
      "[CallWait quiet, CallReset, CallWait quiet, CallWait quiet]"]
  by simp

section \<open>Cancellation\<close>

text \<open>
  C6. A context already cancelled at entry: \<^verbatim>\<open>Wait\<close> returns \<^verbatim>\<open>false\<close> and the retrier is
  untouched. A context cancelled while the timer runs (the second \<^verbatim>\<open>select\<close> takes
  \<^verbatim>\<open>ctx.Done()\<close>): \<^verbatim>\<open>Wait\<close> returns \<^verbatim>\<open>false\<close> and leaves the retrier as it stood when the timer
  was started, that is after growth, jitter, clamp and the budget, with the delay that
  was given to the timer. In both versions of the file.
\<close>

theorem cancelled_Wait:
  "(ctx_done e \<longrightarrow>
      Wait impl e r = \<lparr>ok = False, timer = None, after = r\<rparr> \<and>
      Wait_opts impl e r = \<lparr>ok = False, timer = None, after = r\<rparr>) \<and>
   (\<not> ctx_done e' \<and> \<not> timer_first e' \<and> Attempts r' \<noteq> 1 \<longrightarrow>
      Wait impl e' r' =
        \<lparr>ok = False, timer = Some (Delay (advance impl e' r')),
         after = (advance impl e' r')
           \<lparr>Attempts := (if 1 < Attempts r' then Attempts r' - 1 else Attempts r')\<rparr>\<rparr>) \<and>
   (\<not> ctx_done e' \<and> \<not> timer_first e' \<and> Attempts r' \<noteq> 0 \<longrightarrow>
      Wait_opts impl e' r' =
        \<lparr>ok = False, timer = Some (Delay (advance impl e' r')),
         after = (advance impl e' r')
           \<lparr>Attempts := (if 0 < Attempts r' then Attempts r' - 1 else Attempts r')\<rparr>\<rparr>)"
  by (auto simp add: Wait_def Wait_opts_def Let_def sleep_def advance_frame)

theorem cancelled_Wait_witness:
  "ctx_done cancelled_before \<and> \<not> ctx_done cancelled_asleep \<and> \<not> timer_first cancelled_asleep \<and>
   Attempts jittery \<noteq> 1 \<and> Attempts jittery \<noteq> 0 \<and>
   Wait impl_min cancelled_before jittery = \<lparr>ok = False, timer = None, after = jittery\<rparr> \<and>
   Wait_opts impl_min cancelled_before jittery = \<lparr>ok = False, timer = None, after = jittery\<rparr> \<and>
   Wait impl_min cancelled_asleep jittery =
     \<lparr>ok = False, timer = Some (- 20 * Millisecond),
      after = jittery\<lparr>Attempts := 2, Delay := - 20 * Millisecond\<rparr>\<rparr> \<and>
   Wait_opts impl_min cancelled_asleep jittery =
     \<lparr>ok = False, timer = Some (- 20 * Millisecond),
      after = jittery\<lparr>Attempts := 2, Delay := - 20 * Millisecond\<rparr>\<rparr>"
proof -
  have c: "ctx_done cancelled_before" "\<not> ctx_done cancelled_asleep"
    "\<not> timer_first cancelled_asleep"
    by (simp_all add: cancelled_before_def cancelled_asleep_def)
  have a: "Attempts jittery \<noteq> 1" "Attempts jittery \<noteq> 0" "Attempts jittery = 3"
    by (simp_all add: jittery_def)
  have d: "Delay (advance impl_min cancelled_asleep jittery) = - 20 * Millisecond"
    by (subst jittery_Attempts) (simp add: advance_jittery cancelled_asleep_def)
  have f: "advance impl_min cancelled_asleep jittery = jittery\<lparr>Delay := - 20 * Millisecond\<rparr>"
    using d advance_frame [of impl_min cancelled_asleep jittery] by (simp add: jittery_def)
  show ?thesis
    using cancelled_Wait [of cancelled_before impl_min jittery cancelled_asleep jittery] c a
    by (simp add: f)
qed

section \<open>The bounds of the delay\<close>

text \<open>
  C3. With \<^verbatim>\<open>Floor \<le> Ceil\<close>, after a call of \<^verbatim>\<open>Wait\<close> that returned \<^verbatim>\<open>true\<close> the stored
  delay lies between \<^verbatim>\<open>Floor\<close> and \<^verbatim>\<open>Ceil\<close>: from any retrier, for any jitter, any random
  number and any result of an overflowing conversion. In both versions of the file.
\<close>

theorem Wait_ok_delay_bounds:
  assumes "Floor r \<le> Ceil r"
  shows "(ok (Wait impl e r) \<longrightarrow>
            Floor r \<le> Delay (after (Wait impl e r)) \<and> Delay (after (Wait impl e r)) \<le> Ceil r) \<and>
         (ok (Wait_opts impl e r) \<longrightarrow>
            Floor r \<le> Delay (after (Wait_opts impl e r)) \<and>
            Delay (after (Wait_opts impl e r)) \<le> Ceil r)"
  using assms advance_le_Ceil [of impl e r]
  by (auto simp add: Wait_Delay Wait_opts_Delay Wait_ok_iff Wait_opts_ok_iff)

theorem Wait_ok_delay_bounds_witness:
  "Floor jittery \<le> Ceil jittery \<and> ok (Wait impl_min low_draw jittery) \<and>
   ok (Wait_opts impl_min low_draw jittery) \<and>
   Delay (advance impl_min low_draw jittery) = - 20 * Millisecond \<and>
   Floor jittery \<le> Delay (after (Wait impl_min low_draw jittery)) \<and>
   Delay (after (Wait impl_min low_draw jittery)) \<le> Ceil jittery \<and>
   Floor jittery \<le> Delay (after (Wait_opts impl_min low_draw jittery)) \<and>
   Delay (after (Wait_opts impl_min low_draw jittery)) \<le> Ceil jittery"
proof -
  have h: "Floor jittery \<le> Ceil jittery"
    by (simp add: jittery_def Millisecond_def)
  have o: "ok (Wait impl_min low_draw jittery)" "ok (Wait_opts impl_min low_draw jittery)"
    by (simp_all add: Wait_ok_iff Wait_opts_ok_iff low_draw_def jittery_def)
  have d: "Delay (advance impl_min low_draw jittery) = - 20 * Millisecond"
    by (subst jittery_Attempts) (simp add: advance_jittery low_draw_def)
  show ?thesis
    using Wait_ok_delay_bounds [OF h, of impl_min low_draw] h o d by blast
qed

section \<open>Reset and the first call\<close>

text \<open>
  C8. Without jitter, a call of \<^verbatim>\<open>Wait\<close> right after \<^verbatim>\<open>Reset\<close> that returns \<^verbatim>\<open>true\<close> gives the
  timer the same delay, and stores the same delay, as the first call on a retrier just
  made by \<^verbatim>\<open>New\<close> with the same \<^verbatim>\<open>Floor\<close>, \<^verbatim>\<open>Ceil\<close> and \<^verbatim>\<open>Rate\<close> under a context that is
  never cancelled. The budget is left aside: the call after \<^verbatim>\<open>Reset\<close> is one that returned
  \<^verbatim>\<open>true\<close>. In both versions of the file.
\<close>

theorem Reset_then_Wait_like_fresh:
  assumes "Jitter r = Finite 0" and "never_cancelled e'"
  shows "(ok (Wait impl e (Reset r)) \<longrightarrow>
            timer (Wait impl e (Reset r)) =
              timer (Wait impl e' (New (Floor r) (Ceil r)\<lparr>Rate := Rate r\<rparr>)) \<and>
            Delay (after (Wait impl e (Reset r))) =
              Delay (after (Wait impl e' (New (Floor r) (Ceil r)\<lparr>Rate := Rate r\<rparr>)))) \<and>
         (ok (Wait_opts impl e (Reset r)) \<longrightarrow>
            timer (Wait_opts impl e (Reset r)) =
              timer (Wait_opts impl e' (New_opts (Floor r) (Ceil r) [Rate_opt (Rate r)])) \<and>
            Delay (after (Wait_opts impl e (Reset r))) =
              Delay (after (Wait_opts impl e' (New_opts (Floor r) (Ceil r) [Rate_opt (Rate r)]))))"
proof -
  let ?f = "New (Floor r) (Ceil r)\<lparr>Rate := Rate r\<rparr>"
  let ?g = "New_opts (Floor r) (Ceil r) [Rate_opt (Rate r)]"
  have e': "\<not> ctx_done e'" "timer_first e'"
    using assms(2) by (simp_all add: never_cancelled_def)
  have f: "Delay (advance impl e' ?f) = Delay (advance impl e (Reset r))"
    using assms(1) by (simp add: advance_Delay_no_jitter New_def Reset_def Let_def)
  have g: "Delay (advance impl e' ?g) = Delay (advance impl e (Reset r))"
    using assms(1)
    by (simp add: advance_Delay_no_jitter New_opts_def Rate_opt_def Reset_def Let_def)
  have okf: "ok (Wait impl e' ?f)" "ok (Wait_opts impl e' ?g)"
    using e' by (simp_all add: Wait_ok_iff Wait_opts_ok_iff New_def New_opts_def Rate_opt_def)
  have 1: "timer (Wait impl e (Reset r)) = timer (Wait impl e' ?f) \<and>
      Delay (after (Wait impl e (Reset r))) = Delay (after (Wait impl e' ?f))"
    if o: "ok (Wait impl e (Reset r))"
  proof -
    have e: "\<not> ctx_done e" "Attempts (Reset r) \<noteq> 1"
      using o by (simp_all add: Wait_ok_iff)
    have "timer (Wait impl e (Reset r)) = timer (Wait impl e' ?f)"
      using e e' f by (simp add: Wait_timer) (simp add: New_def)
    moreover have "Delay (after (Wait impl e (Reset r))) = Delay (after (Wait impl e' ?f))"
      using o okf(1) e e' f by (simp add: Wait_Delay) (simp add: Reset_def New_def)
    ultimately show ?thesis by simp
  qed
  have 2: "timer (Wait_opts impl e (Reset r)) = timer (Wait_opts impl e' ?g) \<and>
      Delay (after (Wait_opts impl e (Reset r))) = Delay (after (Wait_opts impl e' ?g))"
    if o: "ok (Wait_opts impl e (Reset r))"
  proof -
    have e: "\<not> ctx_done e" "Attempts (Reset r) \<noteq> 0"
      using o by (simp_all add: Wait_opts_ok_iff)
    have "timer (Wait_opts impl e (Reset r)) = timer (Wait_opts impl e' ?g)"
      using e e' g by (simp add: Wait_opts_timer) (simp add: New_opts_def Rate_opt_def)
    moreover have "Delay (after (Wait_opts impl e (Reset r))) =
        Delay (after (Wait_opts impl e' ?g))"
      using o okf(2) e e' g
      by (simp add: Wait_opts_Delay) (simp add: Reset_def New_opts_def Rate_opt_def)
    ultimately show ?thesis by simp
  qed
  show ?thesis
    using 1 2 by blast
qed

theorem Reset_then_Wait_like_fresh_witness:
  "Jitter (jittery\<lparr>Jitter := Finite 0\<rparr>) = Finite 0 \<and> never_cancelled quiet \<and>
   ok (Wait impl_min quiet (Reset (jittery\<lparr>Jitter := Finite 0\<rparr>))) \<and>
   ok (Wait_opts impl_min quiet (Reset (jittery\<lparr>Jitter := Finite 0\<rparr>))) \<and>
   timer (Wait impl_min quiet (Reset (jittery\<lparr>Jitter := Finite 0\<rparr>))) =
     timer (Wait impl_min quiet (New (10 * Millisecond) (100 * Millisecond)\<lparr>Rate := Finite 2\<rparr>)) \<and>
   Delay (after (Wait impl_min quiet (Reset (jittery\<lparr>Jitter := Finite 0\<rparr>)))) =
     Delay (after (Wait impl_min quiet
       (New (10 * Millisecond) (100 * Millisecond)\<lparr>Rate := Finite 2\<rparr>))) \<and>
   timer (Wait_opts impl_min quiet (Reset (jittery\<lparr>Jitter := Finite 0\<rparr>))) =
     timer (Wait_opts impl_min quiet
       (New_opts (10 * Millisecond) (100 * Millisecond) [Rate_opt (Finite 2)])) \<and>
   Delay (after (Wait_opts impl_min quiet (Reset (jittery\<lparr>Jitter := Finite 0\<rparr>)))) =
     Delay (after (Wait_opts impl_min quiet
       (New_opts (10 * Millisecond) (100 * Millisecond) [Rate_opt (Finite 2)])))"
proof -
  have j: "Jitter (jittery\<lparr>Jitter := Finite 0\<rparr>) = Finite 0"
    by simp
  have o: "ok (Wait impl_min quiet (Reset (jittery\<lparr>Jitter := Finite 0\<rparr>)))"
    "ok (Wait_opts impl_min quiet (Reset (jittery\<lparr>Jitter := Finite 0\<rparr>)))"
    by (simp_all add: Wait_ok_iff Wait_opts_ok_iff quiet_def Reset_def jittery_def)
  have f: "Floor (jittery\<lparr>Jitter := Finite 0\<rparr>) = 10 * Millisecond"
    "Ceil (jittery\<lparr>Jitter := Finite 0\<rparr>) = 100 * Millisecond"
    "Rate (jittery\<lparr>Jitter := Finite 0\<rparr>) = Finite 2"
    by (simp_all add: jittery_def)
  show ?thesis
    using Reset_then_Wait_like_fresh [OF j quiet_never, of impl_min quiet] o quiet_never
    unfolding f by simp
qed

section \<open>The floor\<close>

text \<open>
  C10. \<^verbatim>\<open>Wait\<close> raises the stored delay to \<^verbatim>\<open>Floor\<close> only where it returns \<^verbatim>\<open>true\<close>. Where it
  returns \<^verbatim>\<open>false\<close> the stored delay is the one it had at entry (context cancelled at
  entry) or the one after growth, jitter and the clamp to \<^verbatim>\<open>Ceil\<close> (budget used up,
  context cancelled while the timer runs), and nothing lifts it to \<^verbatim>\<open>Floor\<close>. So after
  \<^verbatim>\<open>false\<close> the stored delay can be below \<^verbatim>\<open>Floor\<close> (a new retrier with a floor of 10 ms
  whose context is cancelled keeps the delay 0) and, with jitter, negative (\<open>-20\<close> ms for
  the retrier \<open>jittery\<close> and the draw \<open>-2\<close>, once with the budget used up and once with
  the context cancelled while the timer runs). In both versions of the file.
\<close>

theorem floor_clamp_only_on_true:
  "(ok (Wait impl e r) \<longrightarrow>
      Delay (after (Wait impl e r)) = max (Floor r) (Delay (advance impl e r))) \<and>
   (ok (Wait_opts impl e r) \<longrightarrow>
      Delay (after (Wait_opts impl e r)) = max (Floor r) (Delay (advance impl e r))) \<and>
   (\<not> ok (Wait impl e' r') \<longrightarrow>
      Delay (after (Wait impl e' r')) =
        (if ctx_done e' then Delay r' else Delay (advance impl e' r'))) \<and>
   (\<not> ok (Wait_opts impl e' r') \<longrightarrow>
      Delay (after (Wait_opts impl e' r')) =
        (if ctx_done e' then Delay r' else Delay (advance impl e' r'))) \<and>
   \<not> ok (Wait impl cancelled_before (New (10 * Millisecond) (100 * Millisecond))) \<and>
   Delay (after (Wait impl cancelled_before (New (10 * Millisecond) (100 * Millisecond))))
     < Floor (New (10 * Millisecond) (100 * Millisecond)) \<and>
   \<not> ok (Wait impl low_draw (jittery\<lparr>Attempts := 1\<rparr>)) \<and>
   Delay (after (Wait impl low_draw (jittery\<lparr>Attempts := 1\<rparr>))) < 0 \<and>
   \<not> ok (Wait_opts impl low_draw (jittery\<lparr>Attempts := 0\<rparr>)) \<and>
   Delay (after (Wait_opts impl low_draw (jittery\<lparr>Attempts := 0\<rparr>))) < 0 \<and>
   \<not> ok (Wait impl cancelled_asleep jittery) \<and>
   Delay (after (Wait impl cancelled_asleep jittery)) < 0 \<and>
   \<not> ok (Wait_opts impl cancelled_asleep jittery) \<and>
   Delay (after (Wait_opts impl cancelled_asleep jittery)) < 0"
proof -
  have a: "Delay (advance impl cancelled_asleep jittery) = - 20 * Millisecond"
    by (subst jittery_Attempts) (simp add: advance_jittery cancelled_asleep_def)
  have 1: "\<not> ok (Wait impl cancelled_before (New (10 * Millisecond) (100 * Millisecond))) \<and>
      Delay (after (Wait impl cancelled_before (New (10 * Millisecond) (100 * Millisecond))))
        < Floor (New (10 * Millisecond) (100 * Millisecond))"
    by (simp add: Wait_Delay Wait_ok_iff cancelled_before_def New_def Millisecond_def)
  have 2: "\<not> ok (Wait impl low_draw (jittery\<lparr>Attempts := 1\<rparr>)) \<and>
      Delay (after (Wait impl low_draw (jittery\<lparr>Attempts := 1\<rparr>))) < 0"
    by (simp add: Wait_Delay Wait_ok_iff advance_jittery low_draw_def Millisecond_def)
  have 3: "\<not> ok (Wait_opts impl low_draw (jittery\<lparr>Attempts := 0\<rparr>)) \<and>
      Delay (after (Wait_opts impl low_draw (jittery\<lparr>Attempts := 0\<rparr>))) < 0"
    by (simp add: Wait_opts_Delay Wait_opts_ok_iff advance_jittery low_draw_def Millisecond_def)
  have 4: "\<not> ok (Wait impl cancelled_asleep jittery) \<and>
      Delay (after (Wait impl cancelled_asleep jittery)) < 0"
    by (simp add: Wait_Delay Wait_ok_iff a) (simp add: cancelled_asleep_def Millisecond_def)
  have 5: "\<not> ok (Wait_opts impl cancelled_asleep jittery) \<and>
      Delay (after (Wait_opts impl cancelled_asleep jittery)) < 0"
    by (simp add: Wait_opts_Delay Wait_opts_ok_iff a) (simp add: cancelled_asleep_def Millisecond_def)
  have 6: "ok (Wait impl e r) \<longrightarrow>
      Delay (after (Wait impl e r)) = max (Floor r) (Delay (advance impl e r))"
    by (simp add: Wait_Delay Wait_ok_iff)
  have 7: "ok (Wait_opts impl e r) \<longrightarrow>
      Delay (after (Wait_opts impl e r)) = max (Floor r) (Delay (advance impl e r))"
    by (simp add: Wait_opts_Delay Wait_opts_ok_iff)
  have 8: "\<not> ok (Wait impl e' r') \<longrightarrow>
      Delay (after (Wait impl e' r')) =
        (if ctx_done e' then Delay r' else Delay (advance impl e' r'))"
    by (simp add: Wait_Delay)
  have 9: "\<not> ok (Wait_opts impl e' r') \<longrightarrow>
      Delay (after (Wait_opts impl e' r')) =
        (if ctx_done e' then Delay r' else Delay (advance impl e' r'))"
    by (simp add: Wait_opts_Delay)
  show ?thesis
    using 1 2 3 4 5 6 7 8 9 by blast
qed

theorem floor_clamp_only_on_true_witness:
  "ok (Wait impl_min low_draw jittery) \<and> ok (Wait_opts impl_min low_draw jittery) \<and>
   \<not> ok (Wait impl_min cancelled_asleep jittery) \<and>
   \<not> ok (Wait_opts impl_min cancelled_asleep jittery) \<and>
   Delay (after (Wait impl_min low_draw jittery)) = 10 * Millisecond \<and>
   Delay (after (Wait_opts impl_min low_draw jittery)) = 10 * Millisecond \<and>
   Delay (after (Wait impl_min cancelled_asleep jittery)) = - 20 * Millisecond \<and>
   Delay (after (Wait_opts impl_min cancelled_asleep jittery)) = - 20 * Millisecond"
proof -
  have o: "ok (Wait impl_min low_draw jittery)" "ok (Wait_opts impl_min low_draw jittery)"
    by (simp_all add: Wait_ok_iff Wait_opts_ok_iff low_draw_def jittery_def)
  have n: "\<not> ok (Wait impl_min cancelled_asleep jittery)"
    "\<not> ok (Wait_opts impl_min cancelled_asleep jittery)"
    by (simp_all add: Wait_ok_iff Wait_opts_ok_iff cancelled_asleep_def)
  have c: "\<not> ctx_done cancelled_asleep"
    by (simp add: cancelled_asleep_def)
  have d: "Delay (advance impl_min low_draw jittery) = - 20 * Millisecond"
    "Delay (advance impl_min cancelled_asleep jittery) = - 20 * Millisecond"
    by (subst jittery_Attempts, simp add: advance_jittery low_draw_def,
        subst jittery_Attempts, simp add: advance_jittery cancelled_asleep_def)
  have f: "max (Floor jittery) (- 20 * Millisecond) = 10 * Millisecond"
    by (simp add: jittery_def Millisecond_def)
  show ?thesis
    using floor_clamp_only_on_true [of impl_min low_draw jittery cancelled_asleep jittery] o n c
    unfolding d f by simp
qed

section \<open>A floor of zero\<close>

lemma Wait_zero_floor:
  assumes "Delay r = 0" "Floor r = 0" "Rate r = Finite q" "Jitter r = Finite 0" "Attempts r = 0"
    and "0 \<le> Ceil r" and "never_cancelled e"
  shows "Wait impl e r = \<lparr>ok = True, timer = Some 0, after = r\<rparr>"
proof -
  have "advance impl e r = r"
    using assms(1,3,4,6)
    by (simp add: advance_def applyJitter_def Let_def float64_of_int_0 round_f64_0
        Duration_of_float64_0)
  then show ?thesis
    using assms by (simp add: Wait_def Let_def sleep_def never_cancelled_def)
qed

lemma Waits_zero_floor:
  assumes "Delay r = 0" "Floor r = 0" "Rate r = Finite q" "Jitter r = Finite 0" "Attempts r = 0"
    and "0 \<le> Ceil r" and "\<forall>e \<in> set es. never_cancelled e"
  shows "Waits impl es r = replicate (length es) \<lparr>ok = True, timer = Some 0, after = r\<rparr>"
  using assms(7)
proof (induction es)
  case Nil
  then show ?case by simp
next
  case (Cons e es)
  then show ?case
    using Wait_zero_floor [OF assms(1-6), of e impl] by (simp add: Let_def)
qed

text \<open>
  C2, as amended. With \<^verbatim>\<open>Floor = 0\<close>, \<^verbatim>\<open>Ceil\<close> = 100 ms, \<^verbatim>\<open>Rate = 2\<close>, no jitter, no limit
  on the attempts and a context that is never cancelled, each of five calls of \<^verbatim>\<open>Wait\<close>
  returns \<^verbatim>\<open>true\<close> after a timer of zero: the delay starts at 0, twice 0 is 0, and a
  floor of 0 lifts nothing, so no later delay is positive.
\<close>

theorem zero_floor_never_grows:
  assumes "\<forall>e \<in> set es. never_cancelled e" and "length es = 5"
  shows "map ok (Waits impl es (New 0 (100 * Millisecond)\<lparr>Rate := Finite 2\<rparr>)) = replicate 5 True \<and>
         map timer (Waits impl es (New 0 (100 * Millisecond)\<lparr>Rate := Finite 2\<rparr>))
           = replicate 5 (Some 0)"
proof -
  have "Waits impl es (New 0 (100 * Millisecond)\<lparr>Rate := Finite 2\<rparr>) =
        replicate (length es)
          \<lparr>ok = True, timer = Some 0, after = New 0 (100 * Millisecond)\<lparr>Rate := Finite 2\<rparr>\<rparr>"
    by (rule Waits_zero_floor [OF _ _ _ _ _ _ assms(1)]) (simp_all add: New_def Millisecond_def)
  then show ?thesis using assms(2) by simp
qed

theorem zero_floor_never_grows_witness:
  "never_cancelled quiet \<and> length (replicate 5 quiet) = 5 \<and>
   map timer (Waits impl_min (replicate 5 quiet) (New 0 (100 * Millisecond)\<lparr>Rate := Finite 2\<rparr>))
     = [Some 0, Some 0, Some 0, Some 0, Some 0]"
proof -
  have h: "\<forall>e \<in> set (replicate 5 quiet). never_cancelled e"
    by (simp add: quiet_never)
  have l: "length (replicate 5 quiet) = 5"
    by simp
  have r: "replicate 5 (Some (0::int)) = [Some 0, Some 0, Some 0, Some 0, Some 0]"
    by (simp add: numeral_eq_Suc)
  show ?thesis
    using zero_floor_never_grows [OF h l, of impl_min] quiet_never l unfolding r by simp
qed

text \<open>
  C2 as it was stated fails: the delays of the five calls are all zero, none of the
  later ones is positive.
\<close>

theorem later_delays_positive_counterexample:
  "delays (Waits impl_min (replicate 5 quiet) (New 0 (100 * Millisecond)\<lparr>Rate := Finite 2\<rparr>))
     = [0, 0, 0, 0, 0]"
proof -
  have "Waits impl_min (replicate 5 quiet) (New 0 (100 * Millisecond)\<lparr>Rate := Finite 2\<rparr>) =
        replicate (length (replicate 5 quiet))
          \<lparr>ok = True, timer = Some 0, after = New 0 (100 * Millisecond)\<lparr>Rate := Finite 2\<rparr>\<rparr>"
    by (rule Waits_zero_floor) (simp_all add: New_def quiet_never Millisecond_def)
  then show ?thesis by (simp add: numeral_eq_Suc)
qed

section \<open>Growth\<close>

text \<open>
  A delay that is not negative does not shrink when it is multiplied by a \<^verbatim>\<open>float64\<close> rate
  above 1, as long as the product is an \<^verbatim>\<open>int64\<close>: both roundings, of the delay and of the
  product, are covered by the least rate above 1, which is \<open>1 + 2 ^ -52\<close>.
\<close>

lemma growth_ge:
  assumes d: "0 \<le> d" and q: "is_float64 q" "1 < q"
    and fit: "fits_int64 (fmul (float64_of_int d) (Finite q))"
  shows "d \<le> Duration_of_float64 impl (fmul (float64_of_int d) (Finite q))"
proof (cases "d = 0")
  case True
  then show ?thesis
    by (simp add: float64_of_int_0 round_f64_0 Duration_of_float64_0)
next
  case False
  define x :: rat where "x = of_int d"
  have x1: "1 \<le> x" using d False by (simp add: x_def)
  then have ax: "1 \<le> \<bar>x\<bar>" by simp
  have x0: "0 < x" using x1 by simp
  have small: "\<not> 2 powi 1024 \<le> \<bar>nearest x\<bar>"
  proof
    assume "2 powi 1024 \<le> \<bar>nearest x\<bar>"
    then have "float64_of_int d = PInf"
      using x0 by (simp add: float64_of_int_def x_def [symmetric] round_f64_nearest [OF ax])
    with q(2) fit show False by simp
  qed
  then have f: "float64_of_int d = Finite (nearest x)"
    by (simp add: float64_of_int_def x_def [symmetric] round_f64_nearest [OF ax])
  have "0 \<le> expo x" using ax by (rule expo_ge_0)
  then have "(2::rat) powi 0 \<le> 2 powi expo x" by (rule two_powi_mono)
  with nearest_bounds(1) [OF x0] have a1: "1 \<le> nearest x" by simp
  have "1 * 1 \<le> nearest x * q"
    using a1 q(2) by (intro mult_mono) simp_all
  then have aq: "1 \<le> \<bar>nearest x * q\<bar>" by simp
  have m: "fmul (float64_of_int d) (Finite q) = round_f64 (nearest x * q)"
    by (simp add: f)
  have small': "\<not> 2 powi 1024 \<le> \<bar>nearest (nearest x * q)\<bar>"
  proof
    assume "2 powi 1024 \<le> \<bar>nearest (nearest x * q)\<bar>"
    then have "fits_int64 (round_f64 (nearest x * q)) = False"
      by (simp add: round_f64_nearest [OF aq])
    with fit m show False by simp
  qed
  then have r: "fmul (float64_of_int d) (Finite q) = Finite (nearest (nearest x * q))"
    by (simp add: m round_f64_nearest [OF aq])
  have "x \<le> nearest (nearest x * q)"
    using x1 float64_above_1 [OF q] by (rule nearest_grow_ge)
  then have "d \<le> trunc (nearest (nearest x * q))"
    using d by (intro trunc_ge) (simp_all add: x_def)
  then show ?thesis
    using fit by (simp add: r Duration_of_float64_def)
qed

lemma advance_grows:
  assumes "Jitter r = Finite 0" and "Rate r = Finite q" and "is_float64 q" and "1 < q"
    and "0 \<le> Delay r \<or> Ceil r \<le> Delay r"
    and "\<forall>d. 0 \<le> d \<and> d < Ceil r \<longrightarrow> fits_int64 (fmul (float64_of_int d) (Finite q))"
  shows "min (Delay r) (Ceil r) \<le> Delay (advance impl e r)"
proof (cases "Delay r < Ceil r")
  case True
  with assms(5) have d: "0 \<le> Delay r" by simp
  with True assms(6) have "fits_int64 (fmul (float64_of_int (Delay r)) (Finite q))" by simp
  with d assms(3,4) have "Delay r \<le> Duration_of_float64 impl (fmul (float64_of_int (Delay r)) (Finite q))"
    by (intro growth_ge)
  with True show ?thesis
    by (simp add: advance_Delay_no_jitter [OF assms(1)] assms(2) Let_def)
next
  case False
  then show ?thesis
    by (simp add: advance_Delay_no_jitter [OF assms(1)] Let_def)
qed


lemma Waits_delays_sorted:
  assumes "Jitter r = Finite 0" and "Rate r = Finite q" and "is_float64 q" and "1 < q"
    and "0 \<le> Delay r \<or> Ceil r \<le> Delay r"
    and "\<forall>d. 0 \<le> d \<and> d < Ceil r \<longrightarrow> fits_int64 (fmul (float64_of_int d) (Finite q))"
    and "\<forall>e \<in> set es. never_cancelled e"
  shows "sorted (delays (Waits impl es r)) \<and>
         (\<forall>d \<in> set (delays (Waits impl es r)). min (Delay r) (Ceil r) \<le> d \<and> d \<le> Ceil r)"
  using assms(1,2,5,6,7)
proof (induction es arbitrary: r)
  case Nil
  then show ?case by simp
next
  case (Cons e es)
  let ?d = "Delay (advance impl e r)"
  let ?r = "after (Wait impl e r)"
  have nc: "\<not> ctx_done e" "timer_first e"
    using Cons.prems(5) by (simp_all add: never_cancelled_def)
  have lo: "min (Delay r) (Ceil r) \<le> ?d"
    using Cons.prems(1,2) assms(3,4) Cons.prems(3,4) by (rule advance_grows)
  have hi: "?d \<le> Ceil r" by (rule advance_le_Ceil)
  have dr: "?d \<le> Delay ?r"
    using nc by (simp add: Wait_Delay)
  have inv: "0 \<le> Delay ?r \<or> Ceil ?r \<le> Delay ?r"
    using Cons.prems(3) lo dr by (simp add: Wait_frame) linarith
  have IH: "sorted (delays (Waits impl es ?r)) \<and>
      (\<forall>d \<in> set (delays (Waits impl es ?r)). min (Delay ?r) (Ceil ?r) \<le> d \<and> d \<le> Ceil ?r)"
    using Cons.prems by (intro Cons.IH inv) (simp_all add: Wait_frame)
  have rest: "\<forall>d \<in> set (delays (Waits impl es ?r)). ?d \<le> d \<and> d \<le> Ceil r"
    using IH dr hi by (auto simp add: Wait_frame)
  show ?case
  proof (cases "ok (Wait impl e r)")
    case True
    then have "delays (Waits impl (e # es) r) = ?d # delays (Waits impl es ?r)"
      by (simp add: Let_def Wait_timer Wait_ok_iff)
    then show ?thesis
      using IH rest lo hi by auto
  next
    case False
    then have "delays (Waits impl (e # es) r) = delays (Waits impl es ?r)"
      by (simp add: Let_def split: option.splits)
    then show ?thesis
      using IH rest lo by auto
  qed
qed

lemma Waits_opts_delays_sorted:
  assumes "Jitter r = Finite 0" and "Rate r = Finite q" and "is_float64 q" and "1 < q"
    and "0 \<le> Delay r \<or> Ceil r \<le> Delay r"
    and "\<forall>d. 0 \<le> d \<and> d < Ceil r \<longrightarrow> fits_int64 (fmul (float64_of_int d) (Finite q))"
    and "\<forall>e \<in> set es. never_cancelled e"
  shows "sorted (delays (Waits_opts impl es r)) \<and>
         (\<forall>d \<in> set (delays (Waits_opts impl es r)). min (Delay r) (Ceil r) \<le> d \<and> d \<le> Ceil r)"
  using assms(1,2,5,6,7)
proof (induction es arbitrary: r)
  case Nil
  then show ?case by simp
next
  case (Cons e es)
  let ?d = "Delay (advance impl e r)"
  let ?r = "after (Wait_opts impl e r)"
  have nc: "\<not> ctx_done e" "timer_first e"
    using Cons.prems(5) by (simp_all add: never_cancelled_def)
  have lo: "min (Delay r) (Ceil r) \<le> ?d"
    using Cons.prems(1,2) assms(3,4) Cons.prems(3,4) by (rule advance_grows)
  have hi: "?d \<le> Ceil r" by (rule advance_le_Ceil)
  have dr: "?d \<le> Delay ?r"
    using nc by (simp add: Wait_opts_Delay)
  have inv: "0 \<le> Delay ?r \<or> Ceil ?r \<le> Delay ?r"
    using Cons.prems(3) lo dr by (simp add: Wait_opts_frame) linarith
  have IH: "sorted (delays (Waits_opts impl es ?r)) \<and>
      (\<forall>d \<in> set (delays (Waits_opts impl es ?r)). min (Delay ?r) (Ceil ?r) \<le> d \<and> d \<le> Ceil ?r)"
    using Cons.prems by (intro Cons.IH inv) (simp_all add: Wait_opts_frame)
  have rest: "\<forall>d \<in> set (delays (Waits_opts impl es ?r)). ?d \<le> d \<and> d \<le> Ceil r"
    using IH dr hi by (auto simp add: Wait_opts_frame)
  show ?case
  proof (cases "ok (Wait_opts impl e r)")
    case True
    then have "delays (Waits_opts impl (e # es) r) = ?d # delays (Waits_opts impl es ?r)"
      by (simp add: Let_def Wait_opts_timer Wait_opts_ok_iff)
    then show ?thesis
      using IH rest lo hi by auto
  next
    case False
    then have "delays (Waits_opts impl (e # es) r) = delays (Waits_opts impl es ?r)"
      by (simp add: Let_def split: option.splits)
    then show ?thesis
      using IH rest lo by auto
  qed
qed


lemma stored_Waits:
  "stored (Waits impl es r) = map (max (Floor r)) (delays (Waits impl es r))"
proof (induction es arbitrary: r)
  case Nil
  then show ?case by simp
next
  case (Cons e es)
  show ?case
  proof (cases "ok (Wait impl e r)")
    case True
    then show ?thesis
      using Cons.IH [of "after (Wait impl e r)"]
      by (simp add: Let_def Wait_timer Wait_Delay Wait_ok_iff Wait_frame)
  next
    case False
    then show ?thesis
      using Cons.IH [of "after (Wait impl e r)"]
      by (simp add: Let_def Wait_frame split: option.splits)
  qed
qed

lemma stored_Waits_opts:
  "stored (Waits_opts impl es r) = map (max (Floor r)) (delays (Waits_opts impl es r))"
proof (induction es arbitrary: r)
  case Nil
  then show ?case by simp
next
  case (Cons e es)
  show ?case
  proof (cases "ok (Wait_opts impl e r)")
    case True
    then show ?thesis
      using Cons.IH [of "after (Wait_opts impl e r)"]
      by (simp add: Let_def Wait_opts_timer Wait_opts_Delay Wait_opts_ok_iff Wait_opts_frame)
  next
    case False
    then show ?thesis
      using Cons.IH [of "after (Wait_opts impl e r)"]
      by (simp add: Let_def Wait_opts_frame split: option.splits)
  qed
qed


lemma rises_toI:
  assumes "sorted ds" and "\<forall>d \<in> set ds. d \<le> c"
  shows "rises_to c ds"
proof -
  have "list_all (\<lambda>d. d = c) (dropWhile (\<lambda>d. d \<noteq> c) ds)"
    using assms
  proof (induction ds)
    case Nil
    then show ?case by simp
  next
    case (Cons x xs)
    show ?case
    proof (cases "x = c")
      case True
      then have stop: "dropWhile (\<lambda>d. d \<noteq> c) (x # xs) = x # xs"
        by simp
      have "\<forall>y \<in> set (x # xs). y = c"
      proof
        fix y
        assume y: "y \<in> set (x # xs)"
        have "x \<le> y" using Cons.prems(1) y by auto
        moreover have "y \<le> c" using Cons.prems(2) y by blast
        ultimately show "y = c" using True by linarith
      qed
      then have "list_all (\<lambda>d. d = c) (x # xs)"
        by (simp only: list_all_iff)
      then show ?thesis
        by (simp only: stop)
    next
      case False
      have "list_all (\<lambda>d. d = c) (dropWhile (\<lambda>d. d \<noteq> c) xs)"
        using Cons.prems by (intro Cons.IH) simp_all
      with False show ?thesis by simp
    qed
  qed
  moreover have "list_all (\<lambda>d. d \<le> c) ds"
    using assms(2) by (simp only: list_all_iff)
  ultimately show ?thesis
    using assms(1) by (simp only: rises_to_def simp_thms)
qed

lemma rises_to_max:
  assumes "rises_to c ds" and "f \<le> c"
  shows "rises_to c (map (max f) ds)"
proof (rule rises_toI)
  have "sorted ds" using assms(1) by (simp add: rises_to_def)
  then show "sorted (map (max f) ds)"
    by (rule sorted_wrt_map_mono) (simp add: max.mono)
  have "d \<le> c" if "d \<in> set ds" for d
    using assms(1) that by (simp add: rises_to_def list_all_iff)
  then show "\<forall>d \<in> set (map (max f) ds). d \<le> c"
    using assms(2) by simp
qed

lemma doubling_fits:
  assumes "0 \<le> d" and "d < 100 * Millisecond"
  shows "fits_int64 (fmul (float64_of_int d) (Finite 2))"
proof -
  have d: "\<bar>d\<bar> \<le> 2 ^ 53" "\<bar>d * 2\<bar> \<le> 2 ^ 53"
    using assms by (simp_all add: Millisecond_def)
  have "float64_of_int d = Finite (of_int d)"
    unfolding float64_of_int_def using d(1) by (rule round_f64_of_int)
  moreover have "round_f64 (of_int (d * 2)) = Finite (of_int (d * 2))"
    using d(2) by (rule round_f64_of_int)
  ultimately have "fmul (float64_of_int d) (Finite 2) = Finite (of_int (d * 2))"
    by simp
  then show ?thesis
    using assms by (simp add: trunc_def Millisecond_def)
qed

lemma is_float64_2: "is_float64 2"
  by (simp add: is_float64_def round_f64_numeral)

lemma advance_eq: "advance impl e r = r\<lparr>Delay := Delay (advance impl e r)\<rparr>"
  by (simp add: advance_def Let_def)

lemma Wait_unlimited:
  assumes "Attempts r = 0" and "never_cancelled e"
  shows "Wait impl e r =
    \<lparr>ok = True, timer = Some (Delay (advance impl e r)),
     after = r\<lparr>Delay := max (Floor r) (Delay (advance impl e r))\<rparr>\<rparr>"
proof -
  define D where "D = Delay (advance impl e r)"
  have a: "advance impl e r = r\<lparr>Delay := D\<rparr>"
    unfolding D_def by (rule advance_eq)
  have "sleep e (r\<lparr>Delay := D\<rparr>) =
    \<lparr>ok = True, timer = Some D, after = r\<lparr>Delay := max (Floor r) D\<rparr>\<rparr>"
    using assms(2) by (simp add: sleep_def never_cancelled_def max_def)
  then show ?thesis
    using assms unfolding D_def [symmetric]
    by (simp add: Wait_def Let_def a never_cancelled_def)
qed

lemma doubling:
  assumes "0 \<le> d" and "d * 2 \<le> 2 ^ 53"
  shows "Duration_of_float64 impl (fmul (float64_of_int d) (Finite 2)) = d * 2"
proof -
  have d: "\<bar>d\<bar> \<le> 2 ^ 53" "\<bar>d * 2\<bar> \<le> 2 ^ 53"
    using assms by simp_all
  have "float64_of_int d = Finite (of_int d)"
    unfolding float64_of_int_def using d(1) by (rule round_f64_of_int)
  moreover have "round_f64 (of_int (d * 2)) = Finite (of_int (d * 2))"
    using d(2) by (rule round_f64_of_int)
  ultimately have "fmul (float64_of_int d) (Finite 2) = Finite (of_int (d * 2))"
    by simp
  moreover have "trunc (of_int (d * 2)) = d * 2"
  proof -
    have "(0::rat) \<le> of_int (d * 2)"
      using assms(1) by simp
    then show ?thesis
      by (simp only: trunc_def if_True floor_of_int)
  qed
  moreover have "d * 2 < 2 ^ 63"
    using assms(2) by simp
  ultimately show ?thesis
    using assms(1) by (simp only: Duration_of_float64_def float64.case fits_int64.simps) simp
qed

lemma Wait_doubler:
  assumes "0 \<le> d" and "d \<le> 100 * Millisecond"
  shows "Wait impl quiet (doubler d) =
    \<lparr>ok = True, timer = Some (min (d * 2) (100 * Millisecond)),
     after = doubler (max (10 * Millisecond) (min (d * 2) (100 * Millisecond)))\<rparr>"
proof -
  have "d * 2 \<le> 2 ^ 53"
    using assms(2) by (simp add: Millisecond_def)
  with assms(1) have g: "Duration_of_float64 impl (fmul (float64_of_int d) (Finite 2)) = d * 2"
    by (rule doubling)
  have "Delay (advance impl quiet (doubler d)) = min (d * 2) (100 * Millisecond)"
    using assms by (simp add: advance_Delay_no_jitter doubler_def g Let_def min_def)
  moreover have "Wait impl quiet (doubler d) =
    \<lparr>ok = True, timer = Some (Delay (advance impl quiet (doubler d))),
     after = doubler d\<lparr>Delay := max (Floor (doubler d)) (Delay (advance impl quiet (doubler d)))\<rparr>\<rparr>"
    by (rule Wait_unlimited) (simp_all add: doubler_def quiet_never)
  ultimately show ?thesis
    by (simp add: doubler_def)
qed

lemma doubling_delays:
  "delays (Waits impl [quiet, quiet, quiet, quiet, quiet, quiet] (doubler 0)) =
   [0, 20 * Millisecond, 40 * Millisecond, 80 * Millisecond, 100 * Millisecond,
    100 * Millisecond]"
proof -
  have 1: "Wait impl quiet (doubler 0) =
      \<lparr>ok = True, timer = Some 0, after = doubler (10 * Millisecond)\<rparr>"
    using Wait_doubler [of 0 impl] by (simp add: Millisecond_def)
  have 2: "Wait impl quiet (doubler (10 * Millisecond)) =
      \<lparr>ok = True, timer = Some (20 * Millisecond), after = doubler (20 * Millisecond)\<rparr>"
    using Wait_doubler [of "10 * Millisecond" impl] by (simp add: Millisecond_def)
  have 3: "Wait impl quiet (doubler (20 * Millisecond)) =
      \<lparr>ok = True, timer = Some (40 * Millisecond), after = doubler (40 * Millisecond)\<rparr>"
    using Wait_doubler [of "20 * Millisecond" impl] by (simp add: Millisecond_def)
  have 4: "Wait impl quiet (doubler (40 * Millisecond)) =
      \<lparr>ok = True, timer = Some (80 * Millisecond), after = doubler (80 * Millisecond)\<rparr>"
    using Wait_doubler [of "40 * Millisecond" impl] by (simp add: Millisecond_def)
  have 5: "Wait impl quiet (doubler (80 * Millisecond)) =
      \<lparr>ok = True, timer = Some (100 * Millisecond), after = doubler (100 * Millisecond)\<rparr>"
    using Wait_doubler [of "80 * Millisecond" impl] by (simp add: Millisecond_def)
  have 6: "Wait impl quiet (doubler (100 * Millisecond)) =
      \<lparr>ok = True, timer = Some (100 * Millisecond), after = doubler (100 * Millisecond)\<rparr>"
    using Wait_doubler [of "100 * Millisecond" impl] by (simp add: Millisecond_def)
  show ?thesis
    by (simp add: Let_def 1 2 3 4 5 6)
qed

text \<open>
  A bound in closed form under which no growth overflows: \<^verbatim>\<open>Ceil\<close> times the rate is at
  most \<open>2 ^ 61\<close> nanoseconds, some 73 years (each of the two roundings at most doubles).
\<close>

lemma nearest_le_double:
  assumes "0 < x"
  shows "nearest x \<le> 2 * x"
proof -
  have "nearest x \<le> 2 powi (expo x + 1)"
    using assms by (rule nearest_bounds(2))
  also have "\<dots> = 2 * 2 powi expo x"
    by (rule two_powi_Suc)
  also have "\<dots> \<le> 2 * x"
    using expo_bounds(1) [of x] assms by simp
  finally show ?thesis .
qed

lemma growth_fits:
  assumes d: "0 \<le> d" "d < c" and q: "1 < q" and c: "of_int c * q \<le> 2 ^ 61"
  shows "fits_int64 (fmul (float64_of_int d) (Finite q))"
proof (cases "d = 0")
  case True
  then show ?thesis
    by (simp add: float64_of_int_0 round_f64_0 trunc_def)
next
  case False
  define x :: rat where "x = of_int d"
  have x1: "1 \<le> x" using d(1) False by (simp add: x_def)
  then have ax: "1 \<le> \<bar>x\<bar>" and x0: "0 < x" by simp_all
  have "x < of_int c" using d(2) by (simp add: x_def)
  then have "x * q < of_int c * q"
    using q by (intro mult_strict_right_mono) simp_all
  with c have xq: "x * q < 2 ^ 61" by simp
  have "x * 1 \<le> x * q" using x0 q by (intro mult_left_mono) simp_all
  with xq have xb: "x \<le> 2 ^ 61" by simp
  have nx: "nearest x \<le> 2 * x" using x0 by (rule nearest_le_double)
  have "0 \<le> expo x" using ax by (rule expo_ge_0)
  then have "(2::rat) powi 0 \<le> 2 powi expo x" by (rule two_powi_mono)
  with nearest_bounds(1) [OF x0] have a1: "1 \<le> nearest x" by simp
  have "\<bar>nearest x\<bar> \<le> 2 ^ 62" using nx xb a1 by simp
  also have "\<dots> < (2::rat) powi 1024" by simp
  finally have "\<not> 2 powi 1024 \<le> \<bar>nearest x\<bar>" by simp
  then have f: "float64_of_int d = Finite (nearest x)"
    by (simp add: float64_of_int_def x_def [symmetric] round_f64_nearest [OF ax])
  define y where "y = nearest x * q"
  have "1 * 1 \<le> nearest x * q" using a1 q by (intro mult_mono) simp_all
  then have y1: "1 \<le> y" by (simp add: y_def)
  then have ay: "1 \<le> \<bar>y\<bar>" and y0: "0 < y" by simp_all
  have "y \<le> (2 * x) * q"
    unfolding y_def using nx q by (intro mult_right_mono) simp_all
  with xq have yb: "y < 2 ^ 62" by simp
  have ny: "nearest y \<le> 2 * y" using y0 by (rule nearest_le_double)
  have "0 \<le> expo y" using ay by (rule expo_ge_0)
  then have "(2::rat) powi 0 \<le> 2 powi expo y" by (rule two_powi_mono)
  with nearest_bounds(1) [OF y0] have b1: "1 \<le> nearest y" by simp
  have nb: "nearest y < 2 ^ 63" using ny yb by simp
  then have "\<bar>nearest y\<bar> \<le> 2 ^ 63" using b1 by simp
  also have "\<dots> < (2::rat) powi 1024" by simp
  finally have "\<not> 2 powi 1024 \<le> \<bar>nearest y\<bar>" by simp
  then have m: "fmul (float64_of_int d) (Finite q) = Finite (nearest y)"
    by (simp add: f y_def [symmetric] round_f64_nearest [OF ay])
  have "0 \<le> \<lfloor>nearest y\<rfloor>"
    using b1 by simp
  moreover have "\<lfloor>nearest y\<rfloor> < 2 ^ 63"
    using nb by (simp add: floor_less_iff)
  ultimately show ?thesis
    using b1 by (simp add: m trunc_def)
qed

text \<open>Beyond the bounds: twice \<open>2 ^ 62\<close> is \<open>2 ^ 63\<close>, which is no \<^verbatim>\<open>int64\<close>.\<close>

lemma round_f64_pow2:
  assumes "0 \<le> k" and "k < 1024"
  shows "round_f64 (2 powi k) = Finite (2 powi k)"
proof (rule round_f64_exact [where m = 1 and k = k])
  show "(2::rat) powi k = of_int 1 * 2 powi k" by simp
  show "\<bar>1::int\<bar> \<le> 2 ^ 53" by simp
  have "(2::rat) powi 0 \<le> 2 powi k" using assms(1) by (rule two_powi_mono)
  then show "1 \<le> \<bar>(2::rat) powi k\<bar>" by simp
  have "(2::rat) powi k < 2 powi 1024" using assms(2) by (rule two_powi_strict_mono)
  then show "\<bar>(2::rat) powi k\<bar> < 2 powi 1024" by simp
qed

lemma grow_half_MaxInt64:
  "Duration_of_float64 impl_min (fmul (float64_of_int half_MaxInt64) (Finite 2)) = MinInt64"
proof -
  have "round_f64 (2 powi 62) = Finite (2 powi 62)" "round_f64 (2 powi 63) = Finite (2 powi 63)"
    by (rule round_f64_pow2, simp, simp)+
  then have "fmul (float64_of_int (2 ^ 62)) (Finite 2) = Finite (2 ^ 63)"
    by (simp add: float64_of_int_def)
  moreover have "trunc (2 ^ 63) = 2 ^ 63"
    by (simp add: trunc_def)
  ultimately show ?thesis
    by (simp add: Duration_of_float64_def impl_min_def half_MaxInt64_def MinInt64_def)
qed


text \<open>
  Where no growth overflows the delays rise. Without jitter, with a \<^verbatim>\<open>float64\<close> rate
  above 1, \<^verbatim>\<open>Floor \<le> Ceil\<close> and a context that is never cancelled, the delays given to the
  timer by successive calls of \<^verbatim>\<open>Wait\<close> that return \<^verbatim>\<open>true\<close> never decrease, never exceed
  \<^verbatim>\<open>Ceil\<close>, and stay at \<^verbatim>\<open>Ceil\<close> once they reach it; so do the delays the retrier stores
  after these calls. The retrier starts with a delay that is not negative (as left by
  \<^verbatim>\<open>New\<close> or \<^verbatim>\<open>Reset\<close>, or by an earlier call) or not below \<^verbatim>\<open>Ceil\<close>, and the grown delay of
  every delay below \<^verbatim>\<open>Ceil\<close> is an \<^verbatim>\<open>int64\<close>; by \<open>growth_fits\<close> that is so when \<^verbatim>\<open>Ceil\<close>
  times the rate is at most \<open>2 ^ 61\<close> nanoseconds. In both versions of the file.
\<close>

lemma delays_rise_to_Ceil:
  assumes "Jitter r = Finite 0" and "Rate r = Finite q" and "is_float64 q" and "1 < q"
    and "Floor r \<le> Ceil r"
    and "0 \<le> Delay r \<or> Ceil r \<le> Delay r"
    and "\<forall>e \<in> set es. never_cancelled e"
    and "\<forall>d. 0 \<le> d \<and> d < Ceil r \<longrightarrow> fits_int64 (fmul (float64_of_int d) (Finite q))"
  shows "rises_to (Ceil r) (delays (Waits impl es r)) \<and>
         rises_to (Ceil r) (stored (Waits impl es r)) \<and>
         rises_to (Ceil r) (delays (Waits_opts impl es r)) \<and>
         rises_to (Ceil r) (stored (Waits_opts impl es r))"
proof -
  have "sorted (delays (Waits impl es r)) \<and>
      (\<forall>d \<in> set (delays (Waits impl es r)). min (Delay r) (Ceil r) \<le> d \<and> d \<le> Ceil r)"
    using assms(1-4,6,8,7) by (rule Waits_delays_sorted)
  then have 1: "rises_to (Ceil r) (delays (Waits impl es r))"
    by (intro rises_toI) blast+
  have "sorted (delays (Waits_opts impl es r)) \<and>
      (\<forall>d \<in> set (delays (Waits_opts impl es r)). min (Delay r) (Ceil r) \<le> d \<and> d \<le> Ceil r)"
    using assms(1-4,6,8,7) by (rule Waits_opts_delays_sorted)
  then have 2: "rises_to (Ceil r) (delays (Waits_opts impl es r))"
    by (intro rises_toI) blast+
  have 3: "rises_to (Ceil r) (stored (Waits impl es r))"
    unfolding stored_Waits using 1 assms(5) by (rule rises_to_max)
  have 4: "rises_to (Ceil r) (stored (Waits_opts impl es r))"
    unfolding stored_Waits_opts using 2 assms(5) by (rule rises_to_max)
  show ?thesis
    using 1 2 3 4 by simp
qed

lemma doubler_New: "doubler 0 = New (10 * Millisecond) (100 * Millisecond)\<lparr>Rate := Finite 2\<rparr>"
  by (simp add: doubler_def New_def)

lemma delays_rise_to_Ceil_example:
  "doubler 0 = New (10 * Millisecond) (100 * Millisecond)\<lparr>Rate := Finite 2\<rparr> \<and>
   Jitter (doubler 0) = Finite 0 \<and> Rate (doubler 0) = Finite 2 \<and> is_float64 2 \<and> (1::rat) < 2 \<and>
   Floor (doubler 0) \<le> Ceil (doubler 0) \<and> 0 \<le> Delay (doubler 0) \<and> never_cancelled quiet \<and>
   fits_int64 (fmul (float64_of_int (Ceil (doubler 0) - 1)) (Finite 2)) \<and>
   delays (Waits impl_min [quiet, quiet, quiet, quiet, quiet, quiet] (doubler 0)) =
     [0, 20 * Millisecond, 40 * Millisecond, 80 * Millisecond, 100 * Millisecond,
      100 * Millisecond] \<and>
   rises_to (100 * Millisecond)
     (delays (Waits impl_min [quiet, quiet, quiet, quiet, quiet, quiet] (doubler 0))) \<and>
   rises_to (100 * Millisecond)
     (stored (Waits impl_min [quiet, quiet, quiet, quiet, quiet, quiet] (doubler 0))) \<and>
   rises_to (100 * Millisecond)
     (delays (Waits_opts impl_min [quiet, quiet, quiet, quiet, quiet, quiet] (doubler 0))) \<and>
   rises_to (100 * Millisecond)
     (stored (Waits_opts impl_min [quiet, quiet, quiet, quiet, quiet, quiet] (doubler 0)))"
proof -
  have j: "Jitter (doubler 0) = Finite 0" and q: "Rate (doubler 0) = Finite 2"
    and c: "Ceil (doubler 0) = 100 * Millisecond"
    by (simp_all add: doubler_def)
  have o: "(1::rat) < 2"
    by simp
  have f: "Floor (doubler 0) \<le> Ceil (doubler 0)"
    by (simp add: doubler_def Millisecond_def)
  have d: "0 \<le> Delay (doubler 0) \<or> Ceil (doubler 0) \<le> Delay (doubler 0)"
    by (simp add: doubler_def)
  have n: "\<forall>e \<in> set [quiet, quiet, quiet, quiet, quiet, quiet]. never_cancelled e"
    by (simp add: quiet_never)
  have g: "\<forall>d. 0 \<le> d \<and> d < Ceil (doubler 0) \<longrightarrow>
      fits_int64 (fmul (float64_of_int d) (Finite 2))"
    unfolding c using doubling_fits by blast
  have top: "fits_int64 (fmul (float64_of_int (Ceil (doubler 0) - 1)) (Finite 2))"
    unfolding c by (rule doubling_fits) (simp_all add: Millisecond_def)
  have z: "0 \<le> Delay (doubler 0)"
    by (simp add: doubler_def)
  note inst = delays_rise_to_Ceil [OF j q is_float64_2 o f d n g, of impl_min, unfolded c]
  show ?thesis
    using inst doubler_New j q is_float64_2 o f z quiet_never top doubling_delays [of impl_min]
    by (simp only: simp_thms)
qed

text \<open>
  C4. Without jitter, with a rate above 1, \<^verbatim>\<open>Floor \<le> Ceil\<close> and a context that is never
  cancelled, the delays of the successive calls of \<^verbatim>\<open>Wait\<close> that return \<^verbatim>\<open>true\<close> are to rise
  to \<^verbatim>\<open>Ceil\<close> and to stay there, and \<^verbatim>\<open>Wait\<close> is documented to return after
  \<^verbatim>\<open>min(Delay*Growth, Ceil)\<close>. The code misses this where the growth overflows, since
  nothing guards the conversion of the product to a duration and the clamp to \<^verbatim>\<open>Ceil\<close>
  comes after it. The run: \<^verbatim>\<open>New\<close> with a floor of \<open>2 ^ 62\<close> nanoseconds and the greatest
  ceiling, \<^verbatim>\<open>Rate = 2\<close>, two calls that both return \<^verbatim>\<open>true\<close>. The first gives the timer 0 and
  stores the floor. The second converts \<open>2 ^ 63\<close>, which is no \<^verbatim>\<open>int64\<close>; where the
  implementation gives the least \<^verbatim>\<open>int64\<close>, the clamp does not fire and the timer is given
  that number, below the first delay and below \<^verbatim>\<open>min(Delay*Growth, Ceil)\<close>, which is the
  ceiling. The stored delay is the floor after either call, and never the ceiling.
\<close>

theorem growth_overflow_run:
  "ancient 0 = New half_MaxInt64 MaxInt64\<lparr>Rate := Finite 2\<rparr> \<and>
   Floor (ancient 0) \<le> Ceil (ancient 0) \<and>
   map ok (Waits impl_min [quiet, quiet] (ancient 0)) = [True, True] \<and>
   delays (Waits impl_min [quiet, quiet] (ancient 0)) = [0, MinInt64] \<and>
   stored (Waits impl_min [quiet, quiet] (ancient 0)) = [half_MaxInt64, half_MaxInt64] \<and>
   \<not> rises_to (Ceil (ancient 0)) (delays (Waits impl_min [quiet, quiet] (ancient 0))) \<and>
   MinInt64 < min (half_MaxInt64 * 2) (Ceil (ancient 0))"
proof -
  have a0: "Delay (advance impl_min quiet (ancient 0)) = 0"
    by (simp add: advance_Delay_no_jitter ancient_def Let_def float64_of_int_0 round_f64_0
        Duration_of_float64_0 MaxInt64_def)
  have "Wait impl_min quiet (ancient 0) =
      \<lparr>ok = True, timer = Some (Delay (advance impl_min quiet (ancient 0))),
       after = ancient 0
         \<lparr>Delay := max (Floor (ancient 0)) (Delay (advance impl_min quiet (ancient 0)))\<rparr>\<rparr>"
    by (rule Wait_unlimited) (simp_all add: ancient_def quiet_never)
  then have 1: "Wait impl_min quiet (ancient 0) =
      \<lparr>ok = True, timer = Some 0, after = ancient half_MaxInt64\<rparr>"
    unfolding a0 by (simp add: ancient_def) (simp add: half_MaxInt64_def)
  have a1: "Delay (advance impl_min quiet (ancient half_MaxInt64)) = MinInt64"
    by (simp add: advance_Delay_no_jitter ancient_def Let_def grow_half_MaxInt64)
      (simp add: half_MaxInt64_def MaxInt64_def MinInt64_def)
  have "Wait impl_min quiet (ancient half_MaxInt64) =
      \<lparr>ok = True, timer = Some (Delay (advance impl_min quiet (ancient half_MaxInt64))),
       after = ancient half_MaxInt64
         \<lparr>Delay := max (Floor (ancient half_MaxInt64))
            (Delay (advance impl_min quiet (ancient half_MaxInt64)))\<rparr>\<rparr>"
    by (rule Wait_unlimited) (simp_all add: ancient_def quiet_never)
  then have 2: "Wait impl_min quiet (ancient half_MaxInt64) =
      \<lparr>ok = True, timer = Some MinInt64, after = ancient half_MaxInt64\<rparr>"
    unfolding a1 by (simp add: ancient_def) (simp add: half_MaxInt64_def MinInt64_def)
  have o: "map ok (Waits impl_min [quiet, quiet] (ancient 0)) = [True, True]"
    by (simp add: Let_def 1 2)
  have d: "delays (Waits impl_min [quiet, quiet] (ancient 0)) = [0, MinInt64]"
    by (simp add: Let_def 1 2)
  have t: "stored (Waits impl_min [quiet, quiet] (ancient 0)) = [half_MaxInt64, half_MaxInt64]"
    by (simp add: Let_def 1 2) (simp add: ancient_def)
  have "\<not> sorted [0, MinInt64]"
    by (simp add: MinInt64_def)
  then have n: "\<not> rises_to (Ceil (ancient 0)) (delays (Waits impl_min [quiet, quiet] (ancient 0)))"
    unfolding d by (simp only: rises_to_def simp_thms)
  have f: "Floor (ancient 0) \<le> Ceil (ancient 0)"
    by (simp add: ancient_def half_MaxInt64_def MaxInt64_def)
  have w: "ancient 0 = New half_MaxInt64 MaxInt64\<lparr>Rate := Finite 2\<rparr>"
    by (simp add: ancient_def New_def)
  have m: "MinInt64 < min (half_MaxInt64 * 2) (Ceil (ancient 0))"
    by (simp add: ancient_def half_MaxInt64_def MaxInt64_def MinInt64_def)
  show ?thesis
    using w f o d t n m by (simp only: simp_thms)
qed

end
